theory Spec2Isabelle
  imports Complex_Main "HOL-Library.Multiset"
begin

section \<open>The optimiser of Optimiser.cpp\<close>

text \<open>
  The file \<^verbatim>\<open>src/leidenalg/Optimiser.cpp\<close> holds the member functions of the class
  \<^verbatim>\<open>Optimiser\<close>: the local-move and merge routines and the two multi-level drivers.
  The classes they work on (\<^verbatim>\<open>MutableVertexPartition\<close>, \<^verbatim>\<open>Graph\<close>) and the header
  \<^verbatim>\<open>Optimiser.h\<close> are not part of the sources at hand, so every operation of theirs
  that the optimiser calls is a parameter of the model, collected in the record
  \<open>collaborators\<close>. A \<^verbatim>\<open>double\<close> is modelled as a real number, a vertex or community
  index as a natural number, the \<^verbatim>\<open>int\<close> counters as integers: rounding, and indices or
  counters beyond the range of an \<^verbatim>\<open>int\<close>, are outside the model.
\<close>

subsection \<open>Configuration\<close>

text \<open>The named constants that \<^verbatim>\<open>consider_comms\<close> and the routine selectors range over.\<close>

datatype considered = ALL_COMMS | ALL_NEIGH_COMMS | RAND_COMM | RAND_NEIGH_COMM

datatype routine = MOVE_NODES | MERGE_NODES

text \<open>The data members of \<^verbatim>\<open>Optimiser\<close> that the member functions read.\<close>

record optimiser =
  consider_comms :: considered
  optimise_routine :: routine
  refine_routine :: routine
  consider_empty_community :: bool
  refine_partition :: bool
  max_comm_size :: nat

subsection \<open>Collaborators\<close>

text \<open>
  The operations of a partition object (type \<open>'p\<close>: the value of one
  \<^verbatim>\<open>MutableVertexPartition\<close> together with its graph) and of the random number generator
  (type \<open>'r\<close>: its state) that \<^verbatim>\<open>Optimiser.cpp\<close> calls:
  \<^item> \<open>vcount p\<close> is \<^verbatim>\<open>partition->g->vcount()\<close>;
  \<^item> \<open>membership p\<close> is the vector \<^verbatim>\<open>partition->membership\<close>;
  \<^item> \<open>get_neigh_comm_weights p v c\<close> is the vector \<^verbatim>\<open>neigh_comm\<close> that the call
    \<^verbatim>\<open>partition->get_neigh_comm_weights(v, c, neigh_comm, neigh_comm_weight)\<close> fills
    (the weights are never read by the optimiser);
  \<^item> \<open>move_node p v c\<close> is the partition after \<^verbatim>\<open>partition->move_node(v, c)\<close>;
  \<^item> \<open>aggregate opt rr rp fixed p r\<close> is the new partition that
    \<^verbatim>\<open>partition->aggregate(this, rr, rp, is_membership_fixed)\<close> returns, with the state
    of the generator afterwards (the call receives the optimiser and may draw from it);
  \<^item> \<open>copy p\<close> and \<open>copy_from_graph p q\<close> are the values of the fresh objects made by
    \<^verbatim>\<open>p->copy()\<close> and \<^verbatim>\<open>p->copy_from_graph(q->g)\<close>;
  \<^item> \<open>rng_init r\<close> and \<open>rng_shuffle ns r\<close> are \<^verbatim>\<open>this->rng_init()\<close> and
    \<^verbatim>\<open>this->rng_shuffle(ns)\<close>, the latter giving the shuffled vector and the next state.
\<close>

record ('p, 'r) collaborators =
  vcount :: "'p \<Rightarrow> nat"
  membership :: "'p \<Rightarrow> nat list"
  n_communities :: "'p \<Rightarrow> nat"
  csize :: "'p \<Rightarrow> nat \<Rightarrow> nat"
  quality :: "'p \<Rightarrow> real"
  diff_move :: "'p \<Rightarrow> nat \<Rightarrow> nat \<Rightarrow> real"
  move_node :: "'p \<Rightarrow> nat \<Rightarrow> nat \<Rightarrow> 'p"
  get_neigh_comm_weights :: "'p \<Rightarrow> nat \<Rightarrow> nat \<Rightarrow> nat list"
  aggregate :: "optimiser \<Rightarrow> routine \<Rightarrow> bool \<Rightarrow> bool list \<Rightarrow> 'p \<Rightarrow> 'r \<Rightarrow> 'p \<times> 'r"
  copy :: "'p \<Rightarrow> 'p"
  copy_from_graph :: "'p \<Rightarrow> 'p \<Rightarrow> 'p"
  rng_init :: "'r \<Rightarrow> 'r"
  rng_shuffle :: "nat list \<Rightarrow> 'r \<Rightarrow> nat list \<times> 'r"

subsection \<open>Outcomes\<close>

text \<open>
  A member function returns nothing (\<^verbatim>\<open>void\<close>) or a \<^verbatim>\<open>double\<close>. A call ends by
  returning a value in a final state, or by failing in the state reached:
  \<open>Runtime_Error\<close> is the \<^verbatim>\<open>std::runtime_error\<close> the source throws; \<open>Out_Of_Range\<close>
  stands for an unchecked \<^verbatim>\<open>operator[]\<close> beyond the end of a vector, which is undefined
  behaviour in the source and where the model stops. A call that runs forever has no
  outcome: the loops are partial functions and give \<open>None\<close>.
\<close>

datatype retval = Void | Double real

datatype error = Runtime_Error string | Out_Of_Range

datatype ('a, 's) outcome = Returned 'a 's | Failed error 's

subsection \<open>Scoring the candidate communities of one vertex\<close>

text \<open>
  The loop \<^verbatim>\<open>for (j ...) { q_gain = diff_move(i, c); if (q_gain > max_q_gain) { comm_to = c;
  max_q_gain = q_gain; } }\<close> over a vector \<open>cs\<close> of communities, started with the pair
  \<open>(comm_to, max_q_gain)\<close>.
\<close>

definition score :: "('p, 'r) collaborators \<Rightarrow> 'p \<Rightarrow> nat \<Rightarrow> nat \<times> real \<Rightarrow> nat \<Rightarrow> nat \<times> real" where
  "score E p i best c =
     (case best of (comm_to, max_q_gain) \<Rightarrow>
        let q_gain = diff_move E p i c
        in if q_gain > max_q_gain then (c, q_gain) else (comm_to, max_q_gain))"

definition scan :: "('p, 'r) collaborators \<Rightarrow> 'p \<Rightarrow> nat \<Rightarrow> nat list \<Rightarrow> nat \<times> real \<Rightarrow> nat \<times> real" where
  "scan E p i cs best = foldl (score E p i) best cs"

text \<open>The loop \<^verbatim>\<open>for (c = 0; c < n_communities(); c++) if (c != comm_from) ...\<close>.\<close>

definition other_comms :: "('p, 'r) collaborators \<Rightarrow> 'p \<Rightarrow> nat \<Rightarrow> nat list" where
  "other_comms E p comm_from = filter (\<lambda>c. c \<noteq> comm_from) [0..<n_communities E p]"

text \<open>The block \<^verbatim>\<open>if (this->consider_empty_community) if (n_communities() < vcount()) ...\<close>.\<close>

definition empty_comm :: "('p, 'r) collaborators \<Rightarrow> optimiser \<Rightarrow> 'p \<Rightarrow> nat list" where
  "empty_comm E opt p =
     (if consider_empty_community opt then
        (if n_communities E p < vcount E p then [n_communities E p] else [])
      else [])"

text \<open>Lines 32 to 72 of \<^verbatim>\<open>move_nodes_impl\<close>: neighbour communities, then the empty one.\<close>

definition select_impl :: "('p, 'r) collaborators \<Rightarrow> optimiser \<Rightarrow> 'p \<Rightarrow> nat \<Rightarrow> nat \<Rightarrow> nat \<times> real" where
  "select_impl E opt p i comm_from =
     (let best = scan E p i (get_neigh_comm_weights E p i comm_from) (comm_from, 0)
      in scan E p i (empty_comm E opt p) best)"

text \<open>
  Lines 207 to 267 of the four-argument \<^verbatim>\<open>move_nodes\<close>, which are lines 415 to 475 of the
  four-argument \<^verbatim>\<open>merge_nodes\<close> word for word: the parameter \<^verbatim>\<open>consider_comms\<close> selects the
  candidates, and a value other than the two tested selects none.
\<close>

definition select4 :: "('p, 'r) collaborators \<Rightarrow> optimiser \<Rightarrow> considered \<Rightarrow> 'p \<Rightarrow> nat \<Rightarrow> nat \<Rightarrow> nat \<times> real" where
  "select4 E opt cc p i comm_from =
     (let best =
        (if cc = ALL_NEIGH_COMMS then
           scan E p i (get_neigh_comm_weights E p i comm_from) (comm_from, 0)
         else if cc = ALL_COMMS then
           scan E p i (other_comms E p comm_from) (comm_from, 0)
         else (comm_from, 0))
      in scan E p i (empty_comm E opt p) best)"

text \<open>
  Lines 307 to 365 of the two-argument \<^verbatim>\<open>merge_nodes\<close>: neighbour communities, then all
  communities when the optimiser's own \<^verbatim>\<open>consider_comms\<close> is \<^verbatim>\<open>ALL_COMMS\<close>, then the
  empty one.
\<close>

definition select_merge :: "('p, 'r) collaborators \<Rightarrow> optimiser \<Rightarrow> 'p \<Rightarrow> nat \<Rightarrow> nat \<Rightarrow> nat \<times> real" where
  "select_merge E opt p i comm_from =
     (let best1 = scan E p i (get_neigh_comm_weights E p i comm_from) (comm_from, 0);
          best2 = (if consider_comms opt = ALL_COMMS then
                     scan E p i (other_comms E p comm_from) best1
                   else best1)
      in scan E p i (empty_comm E opt p) best2)"

subsection \<open>One vertex, one pass\<close>

text \<open>
  The body of the loop over \<^verbatim>\<open>nodes_to_visit\<close>, which the four routines share: skip a
  fixed vertex, read its community, select, and move. \<open>sel\<close> is the selection above;
  \<open>need_gain\<close> tells whether the move is guarded by \<^verbatim>\<open>comm_to != comm_from\<close> alone
  (\<^verbatim>\<open>move_nodes_impl\<close>, line 75) or also by \<^verbatim>\<open>max_q_gain > 0\<close> (the other three, lines
  270, 368 and 478). The flag is the local \<^verbatim>\<open>improvement\<close>.
\<close>

definition visit ::
  "('p, 'r) collaborators \<Rightarrow> bool list \<Rightarrow> ('p \<Rightarrow> nat \<Rightarrow> nat \<Rightarrow> nat \<times> real) \<Rightarrow> bool \<Rightarrow>
     bool \<Rightarrow> 'p \<Rightarrow> nat \<Rightarrow> (bool, 'p) outcome" where
  "visit E is_membership_fixed sel need_gain improvement p i =
     (if length is_membership_fixed \<le> i then Failed Out_Of_Range p
      else if is_membership_fixed ! i then Returned improvement p
      else if length (membership E p) \<le> i then Failed Out_Of_Range p
      else
        let comm_from = membership E p ! i
        in case sel p i comm_from of (comm_to, max_q_gain) \<Rightarrow>
             if comm_to \<noteq> comm_from \<and> (if need_gain then max_q_gain > 0 else True)
             then Returned True (move_node E p i comm_to)
             else Returned improvement p)"

text \<open>The loop \<^verbatim>\<open>for (i_node = 0; i_node < nodes_to_visit.size(); i_node++)\<close>: one pass.\<close>

fun sweep :: "(bool \<Rightarrow> 'p \<Rightarrow> nat \<Rightarrow> (bool, 'p) outcome) \<Rightarrow> nat list \<Rightarrow> bool \<Rightarrow> 'p \<Rightarrow> (bool, 'p) outcome" where
  "sweep body [] improvement p = Returned improvement p"
| "sweep body (i # rest) improvement p =
     (case body improvement p i of
        Returned improvement' p' \<Rightarrow> sweep body rest improvement' p'
      | Failed e p' \<Rightarrow> Failed e p')"

text \<open>
  A pass of a routine: \<^verbatim>\<open>nodes_to_visit = range(vcount()); rng_shuffle(nodes_to_visit)\<close>,
  then the loop, with \<^verbatim>\<open>improvement\<close> starting as \<^verbatim>\<open>false\<close>.
\<close>

definition pass ::
  "('p, 'r) collaborators \<Rightarrow> (bool \<Rightarrow> 'p \<Rightarrow> nat \<Rightarrow> (bool, 'p) outcome) \<Rightarrow> 'p \<times> 'r \<Rightarrow> (bool, 'p \<times> 'r) outcome" where
  "pass E body s =
     (case s of (p, r) \<Rightarrow>
        (case rng_shuffle E [0..<vcount E p] r of (nodes_to_visit, r') \<Rightarrow>
           (case sweep body nodes_to_visit False p of
              Returned improvement p' \<Rightarrow> Returned improvement (p', r')
            | Failed e p' \<Rightarrow> Failed e (p', r'))))"

text \<open>The loop \<^verbatim>\<open>while (improvement) { improvement = false; ... }\<close> around a pass.\<close>

partial_function (option) passes ::
  "('p, 'r) collaborators \<Rightarrow> (bool \<Rightarrow> 'p \<Rightarrow> nat \<Rightarrow> (bool, 'p) outcome) \<Rightarrow> 'p \<times> 'r \<Rightarrow> (unit, 'p \<times> 'r) outcome option" where
  "passes E body s =
     (case pass E body s of
        Returned improvement s' \<Rightarrow> if improvement then passes E body s' else Some (Returned () s')
      | Failed e s' \<Rightarrow> Some (Failed e s'))"

subsection \<open>The routines\<close>

text \<open>The bodies of the loops over \<^verbatim>\<open>nodes_to_visit\<close> of the routines.\<close>

definition visit_impl :: "('p, 'r) collaborators \<Rightarrow> optimiser \<Rightarrow> bool list \<Rightarrow> bool \<Rightarrow> 'p \<Rightarrow> nat \<Rightarrow> (bool, 'p) outcome" where
  "visit_impl E opt is_membership_fixed = visit E is_membership_fixed (select_impl E opt) False"

definition visit4 :: "('p, 'r) collaborators \<Rightarrow> optimiser \<Rightarrow> bool list \<Rightarrow> considered \<Rightarrow> bool \<Rightarrow> 'p \<Rightarrow> nat \<Rightarrow> (bool, 'p) outcome" where
  "visit4 E opt is_membership_fixed cc = visit E is_membership_fixed (select4 E opt cc) True"

definition visit_merge :: "('p, 'r) collaborators \<Rightarrow> optimiser \<Rightarrow> bool list \<Rightarrow> bool \<Rightarrow> 'p \<Rightarrow> nat \<Rightarrow> (bool, 'p) outcome" where
  "visit_merge E opt is_membership_fixed = visit E is_membership_fixed (select_merge E opt) True"

text \<open>\<^verbatim>\<open>void Optimiser::move_nodes_impl(partition, is_membership_fixed)\<close>, lines 12 to 82.\<close>

definition move_nodes_impl :: "('p, 'r) collaborators \<Rightarrow> optimiser \<Rightarrow> bool list \<Rightarrow> 'p \<times> 'r \<Rightarrow> (retval, 'p \<times> 'r) outcome option" where
  "move_nodes_impl E opt is_membership_fixed s =
     (case passes E (visit_impl E opt is_membership_fixed) s of
        None \<Rightarrow> None
      | Some (Returned u s') \<Rightarrow> Some (Returned Void s')
      | Some (Failed e s') \<Rightarrow> Some (Failed e s'))"

text \<open>
  \<^verbatim>\<open>double Optimiser::move_nodes(partition, is_membership_fixed)\<close>, lines 178 to 183: the
  quality before, \<^verbatim>\<open>move_nodes_impl\<close>, and the difference of the quality after.
\<close>

definition move_nodes :: "('p, 'r) collaborators \<Rightarrow> optimiser \<Rightarrow> bool list \<Rightarrow> 'p \<times> 'r \<Rightarrow> (retval, 'p \<times> 'r) outcome option" where
  "move_nodes E opt is_membership_fixed s =
     (let initial_quality = quality E (fst s)
      in case move_nodes_impl E opt is_membership_fixed s of
           None \<Rightarrow> None
         | Some (Returned u s') \<Rightarrow> Some (Returned (Double (quality E (fst s') - initial_quality)) s')
         | Some (Failed e s') \<Rightarrow> Some (Failed e s'))"

text \<open>
  \<^verbatim>\<open>double Optimiser::move_nodes(partition, is_membership_fixed, consider_comms,
  renumber_fixed_nodes)\<close>, lines 192 to 277: one pass, with no loop around it, so the
  function is total. The parameter \<^verbatim>\<open>renumber_fixed_nodes\<close> is never read.
\<close>

definition move_nodes4 :: "('p, 'r) collaborators \<Rightarrow> optimiser \<Rightarrow> bool list \<Rightarrow> considered \<Rightarrow> bool \<Rightarrow> 'p \<times> 'r \<Rightarrow> (retval, 'p \<times> 'r) outcome" where
  "move_nodes4 E opt is_membership_fixed cc renumber_fixed_nodes s =
     (let initial_quality = quality E (fst s)
      in case pass E (visit4 E opt is_membership_fixed cc) s of
           Returned improvement s' \<Rightarrow> Returned (Double (quality E (fst s') - initial_quality)) s'
         | Failed e s' \<Rightarrow> Failed e s')"

text \<open>The five-argument \<^verbatim>\<open>move_nodes\<close>, lines 279 to 283: the size bound is dropped.\<close>

definition move_nodes5 :: "('p, 'r) collaborators \<Rightarrow> optimiser \<Rightarrow> bool list \<Rightarrow> considered \<Rightarrow> bool \<Rightarrow> nat \<Rightarrow> 'p \<times> 'r \<Rightarrow> (retval, 'p \<times> 'r) outcome" where
  "move_nodes5 E opt is_membership_fixed cc renumber_fixed_nodes max_size s =
     move_nodes4 E opt is_membership_fixed cc renumber_fixed_nodes s"

text \<open>\<^verbatim>\<open>double Optimiser::merge_nodes(partition, is_membership_fixed)\<close>, lines 286 to 377.\<close>

definition merge_nodes :: "('p, 'r) collaborators \<Rightarrow> optimiser \<Rightarrow> bool list \<Rightarrow> 'p \<times> 'r \<Rightarrow> (retval, 'p \<times> 'r) outcome option" where
  "merge_nodes E opt is_membership_fixed s =
     (let initial_quality = quality E (fst s)
      in case passes E (visit_merge E opt is_membership_fixed) s of
           None \<Rightarrow> None
         | Some (Returned u s') \<Rightarrow> Some (Returned (Double (quality E (fst s') - initial_quality)) s')
         | Some (Failed e s') \<Rightarrow> Some (Failed e s'))"

text \<open>
  \<^verbatim>\<open>double Optimiser::merge_nodes(partition, is_membership_fixed, consider_comms,
  renumber_fixed_nodes)\<close>, lines 394 to 487.
\<close>

definition merge_nodes4 :: "('p, 'r) collaborators \<Rightarrow> optimiser \<Rightarrow> bool list \<Rightarrow> considered \<Rightarrow> bool \<Rightarrow> 'p \<times> 'r \<Rightarrow> (retval, 'p \<times> 'r) outcome option" where
  "merge_nodes4 E opt is_membership_fixed cc renumber_fixed_nodes s =
     (let initial_quality = quality E (fst s)
      in case passes E (visit4 E opt is_membership_fixed cc) s of
           None \<Rightarrow> None
         | Some (Returned u s') \<Rightarrow> Some (Returned (Double (quality E (fst s') - initial_quality)) s')
         | Some (Failed e s') \<Rightarrow> Some (Failed e s'))"

text \<open>The five-argument \<^verbatim>\<open>merge_nodes\<close>, lines 489 to 493: the size bound is dropped.\<close>

definition merge_nodes5 :: "('p, 'r) collaborators \<Rightarrow> optimiser \<Rightarrow> bool list \<Rightarrow> considered \<Rightarrow> bool \<Rightarrow> nat \<Rightarrow> 'p \<times> 'r \<Rightarrow> (retval, 'p \<times> 'r) outcome option" where
  "merge_nodes5 E opt is_membership_fixed cc renumber_fixed_nodes max_size s =
     merge_nodes4 E opt is_membership_fixed cc renumber_fixed_nodes s"

subsection \<open>The store of partition objects\<close>

text \<open>
  The drivers hold pointers to partition objects, redirect them, and create objects
  (\<^verbatim>\<open>aggregate\<close>, \<^verbatim>\<open>copy\<close>, \<^verbatim>\<open>copy_from_graph\<close>) while they mutate others in place. A
  pointer is an address, and the world holds the object at each address, the first address
  not yet handed out, and the state of the optimiser's random number generator. A routine
  writes to the one object it is called on. The sources of \<^verbatim>\<open>aggregate\<close>, \<^verbatim>\<open>copy\<close> and
  \<^verbatim>\<open>copy_from_graph\<close> are not at hand: following the specification (the aggregation
  returns a new partition, a copy is a clone that the hierarchy owns), each of them makes one
  new object and leaves the existing ones as they are, and none of them throws.
\<close>

record ('p, 'r) world =
  objs :: "nat \<Rightarrow> 'p"
  next_free :: nat
  rng :: 'r

definition alloc :: "'p \<Rightarrow> ('p, 'r) world \<Rightarrow> nat \<times> ('p, 'r) world" where
  "alloc v w = (next_free w, w\<lparr>objs := (objs w)(next_free w := v), next_free := Suc (next_free w)\<rparr>)"

fun positive :: "retval \<Rightarrow> bool" where
  "positive (Double d) = (d > 0)"
| "positive Void = False"

text \<open>
  The statement \<^verbatim>\<open>if (optimise_routine == MOVE_NODES) was_improvement = move_nodes(partition,
  is_membership_fixed) > 0; else if (optimise_routine == MERGE_NODES) was_improvement =
  merge_nodes(partition, is_membership_fixed) > 0;\<close> on the object that \<^verbatim>\<open>partition\<close>
  points to. The calls resolve to the two-argument routines.
\<close>

definition optimise_round ::
  "('p, 'r) collaborators \<Rightarrow> optimiser \<Rightarrow> bool list \<Rightarrow> nat \<Rightarrow> ('p, 'r) world \<Rightarrow> (bool, ('p, 'r) world) outcome option" where
  "optimise_round E opt is_membership_fixed part w =
     (case (case optimise_routine opt of
              MOVE_NODES \<Rightarrow> move_nodes E opt is_membership_fixed (objs w part, rng w)
            | MERGE_NODES \<Rightarrow> merge_nodes E opt is_membership_fixed (objs w part, rng w)) of
        None \<Rightarrow> None
      | Some (Returned v s') \<Rightarrow>
          Some (Returned (positive v) (w\<lparr>objs := (objs w)(part := fst s'), rng := snd s'\<rparr>))
      | Some (Failed e s') \<Rightarrow>
          Some (Failed e (w\<lparr>objs := (objs w)(part := fst s'), rng := snd s'\<rparr>)))"

text \<open>
  The call \<^verbatim>\<open>partition->aggregate(this, this->refine_routine, this->refine_partition,
  is_membership_fixed)\<close>: a new object, whose address is returned.
\<close>

definition aggregate_at ::
  "('p, 'r) collaborators \<Rightarrow> optimiser \<Rightarrow> bool list \<Rightarrow> nat \<Rightarrow> ('p, 'r) world \<Rightarrow> nat \<times> ('p, 'r) world" where
  "aggregate_at E opt is_membership_fixed part w =
     (case aggregate E opt (refine_routine opt) (refine_partition opt) is_membership_fixed
             (objs w part) (rng w) of
        (new_partition, r') \<Rightarrow> alloc new_partition (w\<lparr>rng := r'\<rparr>))"

subsection \<open>The driver \<^verbatim>\<open>optimise_partition\<close>\<close>

text \<open>
  The loop of lines 107 to 117, on the local variables \<^verbatim>\<open>partition\<close>,
  \<^verbatim>\<open>was_improvement\<close> and \<^verbatim>\<open>i\<close>. It gives back the last values of \<^verbatim>\<open>i\<close> and
  \<^verbatim>\<open>was_improvement\<close>. The counter is an \<^verbatim>\<open>int\<close> in the source and an unbounded integer
  here.
\<close>

partial_function (option) optimise_loop ::
  "('p, 'r) collaborators \<Rightarrow> optimiser \<Rightarrow> int \<Rightarrow> bool list \<Rightarrow> nat \<times> bool \<times> int \<times> ('p, 'r) world \<Rightarrow>
     (int \<times> bool, ('p, 'r) world) outcome option" where
  "optimise_loop E opt n_iterations is_membership_fixed st =
     (case st of (part, was_improvement, i, w) \<Rightarrow>
        if was_improvement \<and> (n_iterations < 0 \<or> i < n_iterations) then
          (case optimise_round E opt is_membership_fixed part w of
             None \<Rightarrow> None
           | Some (Failed e w') \<Rightarrow> Some (Failed e w')
           | Some (Returned was_improvement' w') \<Rightarrow>
               (if was_improvement' then
                  (case aggregate_at E opt is_membership_fixed part w' of
                     (part', w'') \<Rightarrow>
                       optimise_loop E opt n_iterations is_membership_fixed
                         (part', was_improvement', i + 1, w''))
                else
                  optimise_loop E opt n_iterations is_membership_fixed
                    (part, was_improvement', i + 1, w')))
        else Some (Returned (i, was_improvement) w))"

text \<open>
  Lines 90 to 118 up to the end of the loop: \<^verbatim>\<open>rng_init\<close>, the first round, the first
  aggregation, \<^verbatim>\<open>i = 1\<close>, and the loop.
\<close>

definition optimise_partition_run ::
  "('p, 'r) collaborators \<Rightarrow> optimiser \<Rightarrow> nat \<Rightarrow> int \<Rightarrow> bool list \<Rightarrow> ('p, 'r) world \<Rightarrow>
     (int \<times> bool, ('p, 'r) world) outcome option" where
  "optimise_partition_run E opt part n_iterations is_membership_fixed w =
     (case optimise_round E opt is_membership_fixed part (w\<lparr>rng := rng_init E (rng w)\<rparr>) of
        None \<Rightarrow> None
      | Some (Failed e w') \<Rightarrow> Some (Failed e w')
      | Some (Returned was_improvement w') \<Rightarrow>
          (case (if was_improvement then aggregate_at E opt is_membership_fixed part w'
                 else (part, w')) of
             (part', w'') \<Rightarrow>
               optimise_loop E opt n_iterations is_membership_fixed
                 (part', was_improvement, 1, w'')))"

text \<open>
  \<^verbatim>\<open>void Optimiser::optimise_partition(partition, n_iterations, is_membership_fixed)\<close>:
  the function is declared \<^verbatim>\<open>void\<close>.
\<close>

definition optimise_partition ::
  "('p, 'r) collaborators \<Rightarrow> optimiser \<Rightarrow> nat \<Rightarrow> int \<Rightarrow> bool list \<Rightarrow> ('p, 'r) world \<Rightarrow>
     (retval, ('p, 'r) world) outcome option" where
  "optimise_partition E opt part n_iterations is_membership_fixed w =
     (case optimise_partition_run E opt part n_iterations is_membership_fixed w of
        None \<Rightarrow> None
      | Some (Failed e w') \<Rightarrow> Some (Failed e w')
      | Some (Returned u w') \<Rightarrow> Some (Returned Void w'))"

text \<open>
  \<^verbatim>\<open>void Optimiser::optimise_partition(partition, n_iterations)\<close>, lines 84 to 88: no
  vertex is fixed.
\<close>

definition optimise_partition2 ::
  "('p, 'r) collaborators \<Rightarrow> optimiser \<Rightarrow> nat \<Rightarrow> int \<Rightarrow> ('p, 'r) world \<Rightarrow>
     (retval, ('p, 'r) world) outcome option" where
  "optimise_partition2 E opt part n_iterations w =
     optimise_partition E opt part n_iterations
       (replicate (vcount E (objs w part)) False) w"

text \<open>
  What the specification says of the driver, in the words of claim C7 as the code has it:
  \<open>run_rounds k\<close> runs a round, follows it by an aggregation when it improved, and goes
  on in this way until a round fails to improve (or fails) or \<open>k\<close> rounds have been run.
  It counts the rounds from \<open>i\<close> on and gives the count and whether the last round
  improved. An outcome is \<open>stopped\<close> when the run ended by itself, not for lack of rounds.
\<close>

fun run_rounds ::
  "('p, 'r) collaborators \<Rightarrow> optimiser \<Rightarrow> bool list \<Rightarrow> nat \<Rightarrow> int \<Rightarrow> nat \<Rightarrow> ('p, 'r) world \<Rightarrow>
     (int \<times> bool, ('p, 'r) world) outcome option" where
  "run_rounds E opt is_membership_fixed 0 i part w = Some (Returned (i, True) w)"
| "run_rounds E opt is_membership_fixed (Suc k) i part w =
     (case optimise_round E opt is_membership_fixed part w of
        None \<Rightarrow> None
      | Some (Failed e w') \<Rightarrow> Some (Failed e w')
      | Some (Returned improved w') \<Rightarrow>
          (if improved then
             (case aggregate_at E opt is_membership_fixed part w' of
                (part', w'') \<Rightarrow> run_rounds E opt is_membership_fixed k (i + 1) part' w'')
           else Some (Returned (i + 1, False) w')))"

fun stopped :: "(int \<times> bool, 's) outcome \<Rightarrow> bool" where
  "stopped (Returned (i, improved) s) = (\<not> improved)"
| "stopped (Failed e s) = True"

subsection \<open>The driver \<^verbatim>\<open>optimise_partition_hierarchical\<close>\<close>

text \<open>
  The caller's vectors \<^verbatim>\<open>partitions\<close> and \<^verbatim>\<open>hierarchy\<close> are passed by reference and
  hold pointers. The two references may name one and the same vector, so the vectors are
  objects of a store of their own: the state holds the vector at each address, next to the
  world, and the function receives the two addresses.
\<close>

record ('p, 'r) hstate =
  vectors :: "nat \<Rightarrow> nat list"
  world :: "('p, 'r) world"

text \<open>
  Lines 126 to 133: \<^verbatim>\<open>partition = partitions[0]\<close> is read first, then come \<^verbatim>\<open>rng_init\<close>,
  \<^verbatim>\<open>hierarchy.clear()\<close> and \<^verbatim>\<open>hierarchy.push_back(partition->copy())\<close>.
\<close>

definition take_snapshot :: "('p, 'r) collaborators \<Rightarrow> nat \<Rightarrow> nat \<Rightarrow> ('p, 'r) hstate \<Rightarrow> ('p, 'r) hstate" where
  "take_snapshot E partitions hierarchy h =
     (let part = vectors h partitions ! 0;
          h1 = h\<lparr>world := (world h)\<lparr>rng := rng_init E (rng (world h))\<rparr>\<rparr>;
          h2 = h1\<lparr>vectors := (vectors h1)(hierarchy := [])\<rparr>
      in case alloc (copy E (objs (world h2) part)) (world h2) of
           (snapshot, w3) \<Rightarrow>
             h2\<lparr>vectors := (vectors h2)(hierarchy := vectors h2 hierarchy @ [snapshot]),
                world := w3\<rparr>)"

text \<open>
  Lines 143 to 149 and 159 to 165: the aggregation, \<^verbatim>\<open>partitions[0] = new_partition\<close>,
  and the push of \<^verbatim>\<open>new_partition->copy_from_graph(partition->g)\<close> onto the hierarchy.
  The address of the new partition is returned for \<^verbatim>\<open>partition = new_partition\<close>.
  The pointer \<^verbatim>\<open>partition\<close> of the source is the variable \<open>part\<close>. The write to
  \<^verbatim>\<open>partitions[0]\<close> is unchecked: on an empty vector the model stops with \<open>Out_Of_Range\<close>.
\<close>

definition push_level ::
  "('p, 'r) collaborators \<Rightarrow> optimiser \<Rightarrow> bool list \<Rightarrow> nat \<Rightarrow> nat \<Rightarrow> nat \<Rightarrow> ('p, 'r) hstate \<Rightarrow>
     (nat, ('p, 'r) hstate) outcome" where
  "push_level E opt is_membership_fixed partitions hierarchy part h =
     (case aggregate_at E opt is_membership_fixed part (world h) of
        (new_partition, w1) \<Rightarrow>
          if vectors h partitions = [] then Failed Out_Of_Range (h\<lparr>world := w1\<rparr>)
          else
            let h1 = h\<lparr>vectors := (vectors h)(partitions := (vectors h partitions)[0 := new_partition]),
                       world := w1\<rparr>
            in case alloc (copy_from_graph E (objs w1 new_partition) (objs w1 part)) w1 of
                 (level, w2) \<Rightarrow>
                   Returned new_partition
                     (h1\<lparr>vectors := (vectors h1)(hierarchy := vectors h1 hierarchy @ [level]),
                         world := w2\<rparr>))"

text \<open>The loop of lines 152 to 167; its counter \<^verbatim>\<open>i\<close> is never read.\<close>

partial_function (option) hierarchical_loop ::
  "('p, 'r) collaborators \<Rightarrow> optimiser \<Rightarrow> bool list \<Rightarrow> nat \<Rightarrow> nat \<Rightarrow> nat \<times> bool \<times> ('p, 'r) hstate \<Rightarrow>
     (unit, ('p, 'r) hstate) outcome option" where
  "hierarchical_loop E opt is_membership_fixed partitions hierarchy st =
     (case st of (part, was_improvement, h) \<Rightarrow>
        if was_improvement then
          (case optimise_round E opt is_membership_fixed part (world h) of
             None \<Rightarrow> None
           | Some (Failed e w') \<Rightarrow> Some (Failed e (h\<lparr>world := w'\<rparr>))
           | Some (Returned was_improvement' w') \<Rightarrow>
               (if was_improvement' then
                  (case push_level E opt is_membership_fixed partitions hierarchy part
                          (h\<lparr>world := w'\<rparr>) of
                     Failed e h' \<Rightarrow> Some (Failed e h')
                   | Returned part' h' \<Rightarrow>
                       hierarchical_loop E opt is_membership_fixed partitions hierarchy
                         (part', was_improvement', h'))
                else
                  hierarchical_loop E opt is_membership_fixed partitions hierarchy
                    (part, was_improvement', h\<lparr>world := w'\<rparr>)))
        else Some (Returned () h))"

text \<open>
  Lines 135 to 174: the first round on \<^verbatim>\<open>partition\<close>, the first level, the loop, and the
  quality of the last element of the hierarchy as the value returned.
\<close>

definition optimise_levels ::
  "('p, 'r) collaborators \<Rightarrow> optimiser \<Rightarrow> bool list \<Rightarrow> nat \<Rightarrow> nat \<Rightarrow> nat \<Rightarrow> ('p, 'r) hstate \<Rightarrow>
     (retval, ('p, 'r) hstate) outcome option" where
  "optimise_levels E opt is_membership_fixed partitions hierarchy part h =
     (case optimise_round E opt is_membership_fixed part (world h) of
        None \<Rightarrow> None
      | Some (Failed e w') \<Rightarrow> Some (Failed e (h\<lparr>world := w'\<rparr>))
      | Some (Returned was_improvement w') \<Rightarrow>
          (case (if was_improvement
                 then push_level E opt is_membership_fixed partitions hierarchy part
                        (h\<lparr>world := w'\<rparr>)
                 else Returned part (h\<lparr>world := w'\<rparr>)) of
             Failed e h' \<Rightarrow> Some (Failed e h')
           | Returned part' h' \<Rightarrow>
               (case hierarchical_loop E opt is_membership_fixed partitions hierarchy
                       (part', was_improvement, h') of
                  None \<Rightarrow> None
                | Some (Failed e h'') \<Rightarrow> Some (Failed e h'')
                | Some (Returned u h'') \<Rightarrow>
                    (let total_quality =
                       (if vectors h'' hierarchy \<noteq> []
                        then quality E (objs (world h'') (last (vectors h'' hierarchy)))
                        else 0)
                     in Some (Returned (Double total_quality) h'')))))"

text \<open>
  \<^verbatim>\<open>double Optimiser::optimise_partition_hierarchical(partitions, layer_weights,
  is_membership_fixed, hierarchy)\<close>, lines 120 to 175. The read \<^verbatim>\<open>partitions[0]\<close> is
  unchecked: on an empty vector the model stops with \<open>Out_Of_Range\<close>.
\<close>

definition optimise_partition_hierarchical ::
  "('p, 'r) collaborators \<Rightarrow> optimiser \<Rightarrow> nat \<Rightarrow> real list \<Rightarrow> bool list \<Rightarrow> nat \<Rightarrow> ('p, 'r) hstate \<Rightarrow>
     (retval, ('p, 'r) hstate) outcome option" where
  "optimise_partition_hierarchical E opt partitions layer_weights is_membership_fixed hierarchy h =
     (if length (vectors h partitions) \<noteq> length layer_weights then
        Some (Failed (Runtime_Error ''Partitions and layer_weights should be of same size.'') h)
      else if vectors h partitions = [] then Some (Failed Out_Of_Range h)
      else
        optimise_levels E opt is_membership_fixed partitions hierarchy
          (vectors h partitions ! 0) (take_snapshot E partitions hierarchy h))"

declare passes.simps [code]

declare optimise_loop.simps [code]

declare hierarchical_loop.simps [code]

subsection \<open>Observing a run\<close>

text \<open>
  The state in which a call ended, the value it returned and its final state when it ended at
  all, and the objects of a world in the order of their addresses.
\<close>

fun state_of :: "('a, 's) outcome \<Rightarrow> 's" where
  "state_of (Returned v s) = s"
| "state_of (Failed e s) = s"

fun returned :: "('a, 's) outcome option \<Rightarrow> 'a option" where
  "returned (Some (Returned v s)) = Some v"
| "returned (Some (Failed e s)) = None"
| "returned None = None"

fun final :: "('a, 's) outcome option \<Rightarrow> 's option" where
  "final (Some out) = Some (state_of out)"
| "final None = None"

definition contents :: "('p, 'r) world \<Rightarrow> 'p list" where
  "contents w = map (objs w) [0..<next_free w]"

text \<open>The vector at an address, and the objects that its elements point to.\<close>

definition vector_at :: "nat \<Rightarrow> ('p, 'r) hstate \<Rightarrow> nat list" where
  "vector_at a h = vectors h a"


text \<open>
  The vertices that a pass moves, in the order of the moves: the body, entered with the flag
  \<^verbatim>\<open>improvement\<close> down, raises it exactly when it calls \<^verbatim>\<open>move_node\<close>.
\<close>

fun sweep_moves :: "(bool \<Rightarrow> 'p \<Rightarrow> nat \<Rightarrow> (bool, 'p) outcome) \<Rightarrow> nat list \<Rightarrow> 'p \<Rightarrow> nat list" where
  "sweep_moves body [] p = []"
| "sweep_moves body (i # rest) p =
     (case body False p i of
        Returned moved p' \<Rightarrow>
          (if moved then i # sweep_moves body rest p' else sweep_moves body rest p')
      | Failed e p' \<Rightarrow> [])"

definition pass_moves ::
  "('p, 'r) collaborators \<Rightarrow> (bool \<Rightarrow> 'p \<Rightarrow> nat \<Rightarrow> (bool, 'p) outcome) \<Rightarrow> 'p \<times> 'r \<Rightarrow> nat list" where
  "pass_moves E body s =
     sweep_moves body (fst (rng_shuffle E [0..<vcount E (fst s)] (snd s))) (fst s)"

text \<open>
  The communities that the four-argument routines pass to \<^verbatim>\<open>diff_move\<close> for a vertex, in
  the order of the calls.
\<close>

definition candidates4 :: "('p, 'r) collaborators \<Rightarrow> optimiser \<Rightarrow> considered \<Rightarrow> 'p \<Rightarrow> nat \<Rightarrow> nat \<Rightarrow> nat list" where
  "candidates4 E opt cc p i comm_from =
     (if cc = ALL_NEIGH_COMMS then get_neigh_comm_weights E p i comm_from
      else if cc = ALL_COMMS then other_comms E p comm_from
      else []) @ empty_comm E opt p"

text \<open>
  What the optimiser expects of \<^verbatim>\<open>move_node(v, c)\<close>: the community of every other vertex
  stays as it is.
\<close>

definition moves_one_vertex :: "('p, 'r) collaborators \<Rightarrow> bool" where
  "moves_one_vertex E \<longleftrightarrow>
     (\<forall>p i c v. v \<noteq> i \<longrightarrow> membership E (move_node E p i c) ! v = membership E p ! v)"

text \<open>What the optimiser expects of \<^verbatim>\<open>rng_shuffle\<close>: the vector is permuted.\<close>

definition shuffle_permutes :: "('p, 'r) collaborators \<Rightarrow> bool" where
  "shuffle_permutes E \<longleftrightarrow> (\<forall>ns r. mset (fst (rng_shuffle E ns r)) = mset ns)"

text \<open>Every call of the two routines that the drivers use comes to an end.\<close>

definition routines_end :: "('p, 'r) collaborators \<Rightarrow> optimiser \<Rightarrow> bool list \<Rightarrow> bool" where
  "routines_end E opt is_membership_fixed \<longleftrightarrow>
     (\<forall>s. move_nodes E opt is_membership_fixed s \<noteq> None \<and>
          merge_nodes E opt is_membership_fixed s \<noteq> None)"



section \<open>A partition class to run the optimiser on\<close>

text \<open>
  Modelled from the spec: the partition class and its graph, whose sources
  (\<^verbatim>\<open>MutableVertexPartition\<close>, \<^verbatim>\<open>CPMVertexPartition\<close>, \<^verbatim>\<open>Graph\<close>) are not at hand. The
  graph is a list of weighted edges between the vertices \<open>0, \<dots>, N - 1\<close> with a size
  \<open>nw(v)\<close> for each vertex; the partition is its membership vector. Following sections 3
  and 4 of the specification: the number of communities is one more than the largest index in
  use; \<open>csize c\<close> sums the sizes of the vertices of \<open>c\<close>; the quality is that of CPM,
  \<open>\<Sum>c. w_in c - \<gamma> * (csize c)\<^sup>2\<close>; \<open>diff_move\<close> is the change of the quality that the
  move would produce; the neighbour communities are the distinct communities among the
  neighbours; the aggregate is the quotient graph, every community a vertex of its own
  community. The generator state counts the shuffles, and a shuffle leaves the order as it is.
  This class only provides the concrete runs below; the theorems on the optimiser hold for
  every collaborator.
\<close>

record cpm_partition =
  edges :: "(nat \<times> nat \<times> int) list"
  node_sizes :: "nat list"
  memb :: "nat list"

definition cpm_n_communities :: "cpm_partition \<Rightarrow> nat" where
  "cpm_n_communities p = foldl (\<lambda>n c. max n (Suc c)) 0 (memb p)"

definition cpm_csize :: "cpm_partition \<Rightarrow> nat \<Rightarrow> nat" where
  "cpm_csize p c = sum_list (map snd (filter (\<lambda>(m, s). m = c) (zip (memb p) (node_sizes p))))"

definition cpm_weight_in :: "cpm_partition \<Rightarrow> nat \<Rightarrow> int" where
  "cpm_weight_in p c =
     sum_list (map (\<lambda>(u, v, w). if memb p ! u = c \<and> memb p ! v = c then w else 0) (edges p))"

definition cpm_quality :: "int \<Rightarrow> cpm_partition \<Rightarrow> real" where
  "cpm_quality \<gamma> p =
     real_of_int (sum_list (map (\<lambda>c. cpm_weight_in p c - \<gamma> * (int (cpm_csize p c))\<^sup>2)
                     [0..<cpm_n_communities p]))"

definition cpm_move_node :: "cpm_partition \<Rightarrow> nat \<Rightarrow> nat \<Rightarrow> cpm_partition" where
  "cpm_move_node p v c = p\<lparr>memb := (memb p)[v := c]\<rparr>"

definition cpm_diff_move :: "int \<Rightarrow> cpm_partition \<Rightarrow> nat \<Rightarrow> nat \<Rightarrow> real" where
  "cpm_diff_move \<gamma> p v c = cpm_quality \<gamma> (cpm_move_node p v c) - cpm_quality \<gamma> p"

definition cpm_neigh_comms :: "cpm_partition \<Rightarrow> nat \<Rightarrow> nat \<Rightarrow> nat list" where
  "cpm_neigh_comms p v comm_from =
     remdups (concat (map (\<lambda>(a, b, w). (if a = v then [memb p ! b] else []) @
                                         (if b = v \<and> a \<noteq> v then [memb p ! a] else []))
                          (edges p)))"

definition cpm_aggregate :: "cpm_partition \<Rightarrow> cpm_partition" where
  "cpm_aggregate p =
     \<lparr>edges = map (\<lambda>(u, v, w). (memb p ! u, memb p ! v, w)) (edges p),
      node_sizes = map (cpm_csize p) [0..<cpm_n_communities p],
      memb = [0..<cpm_n_communities p]\<rparr>"

definition cpm :: "int \<Rightarrow> (cpm_partition, nat) collaborators" where
  "cpm \<gamma> =
     \<lparr>vcount = (\<lambda>p. length (node_sizes p)),
      membership = memb,
      n_communities = cpm_n_communities,
      csize = cpm_csize,
      quality = cpm_quality \<gamma>,
      diff_move = cpm_diff_move \<gamma>,
      move_node = cpm_move_node,
      get_neigh_comm_weights = cpm_neigh_comms,
      aggregate = (\<lambda>opt rr rp is_membership_fixed p r. (cpm_aggregate p, r)),
      copy = (\<lambda>p. p),
      copy_from_graph = (\<lambda>p q. q\<lparr>memb := map (\<lambda>c. memb p ! c) (memb q)\<rparr>),
      rng_init = (\<lambda>r. 0),
      rng_shuffle = (\<lambda>ns r. (ns, Suc r))\<rparr>"

text \<open>
  The path \<open>0 - 1 - 2 - 3\<close> with the weights 3, 3 and 6 and unit vertex sizes, the
  vertices 1 and 2 sharing a community; the same path with every vertex a community of its
  own; a triangle with the weights 3, 2 and 4, every vertex a community of its own; and the
  graph without a vertex.
\<close>

definition path4 :: cpm_partition where
  "path4 = \<lparr>edges = [(0, 1, 3), (1, 2, 3), (2, 3, 6)], node_sizes = [1, 1, 1, 1], memb = [0, 1, 1, 2]\<rparr>"

definition singletons4 :: cpm_partition where
  "singletons4 = \<lparr>edges = [(0, 1, 3), (1, 2, 3), (2, 3, 6)], node_sizes = [1, 1, 1, 1], memb = [0, 1, 2, 3]\<rparr>"


definition no_vertex :: cpm_partition where
  "no_vertex = \<lparr>edges = [], node_sizes = [], memb = []\<rparr>"

definition none_fixed :: "bool list" where
  "none_fixed = [False, False, False, False]"

definition second_fixed :: "bool list" where
  "second_fixed = [False, True, False, False]"

definition all_fixed :: "bool list" where
  "all_fixed = [True, True, True, True]"

text \<open>An optimiser, and a world with one object at address 0.\<close>

definition optimiser0 :: optimiser where
  "optimiser0 =
     \<lparr>consider_comms = ALL_NEIGH_COMMS, optimise_routine = MOVE_NODES,
      refine_routine = MERGE_NODES, consider_empty_community = False,
      refine_partition = False, max_comm_size = 0\<rparr>"

definition world_of :: "cpm_partition \<Rightarrow> (cpm_partition, nat) world" where
  "world_of p = \<lparr>objs = (\<lambda>a. p), next_free = 1, rng = 7\<rparr>"

text \<open>
  A state with that world and three vectors: the vector \<open>[0]\<close> at address 0, the vector
  \<open>[0, 0]\<close> at address 1, and the empty vector at address 2 and beyond.
\<close>

definition hstate_of :: "cpm_partition \<Rightarrow> (cpm_partition, nat) hstate" where
  "hstate_of p =
     \<lparr>vectors = (\<lambda>a. if a = 0 then [0] else if a = 1 then [0, 0] else []), world = world_of p\<rparr>"

section \<open>Properties of the routines\<close>

subsection \<open>Passes\<close>

lemma scan_append: "scan E p i (xs @ ys) best = scan E p i ys (scan E p i xs best)"
  by (simp add: scan_def)

lemma scan_Nil: "scan E p i [] best = best"
  by (simp add: scan_def)

lemma select4_candidates:
  "select4 E opt cc p i comm_from = scan E p i (candidates4 E opt cc p i comm_from) (comm_from, 0)"
  by (simp add: select4_def candidates4_def scan_append scan_Nil Let_def)

lemma visit_cases:
  "visit E fixed sel ng imp p i = Failed Out_Of_Range p \<or>
   visit E fixed sel ng imp p i = Returned imp p \<or>
   (\<exists>c. i < length fixed \<and> \<not> fixed ! i \<and> visit E fixed sel ng imp p i = Returned True (move_node E p i c))"
  by (auto simp: visit_def Let_def split: prod.splits)

lemma visit_keeps:
  assumes "moves_one_vertex E" and "v < length fixed" and "fixed ! v"
  shows "membership E (state_of (visit E fixed sel ng imp p i)) ! v = membership E p ! v"
proof -
  from visit_cases [of E fixed sel ng imp p i]
  consider "visit E fixed sel ng imp p i = Failed Out_Of_Range p"
    | "visit E fixed sel ng imp p i = Returned imp p"
    | c where "i < length fixed" "\<not> fixed ! i" "visit E fixed sel ng imp p i = Returned True (move_node E p i c)"
    by blast
  then show ?thesis
  proof cases
    case 3
    with assms(3) have "v \<noteq> i" by auto
    with assms(1) 3 show ?thesis by (simp add: moves_one_vertex_def)
  qed simp_all
qed

lemma sweep_keeps:
  assumes "moves_one_vertex E" and "v < length fixed" and "fixed ! v"
  shows "membership E (state_of (sweep (visit E fixed sel ng) ns imp p)) ! v = membership E p ! v"
proof (induction ns arbitrary: imp p)
  case Nil
  show ?case by simp
next
  case (Cons i ns)
  show ?case
  proof (cases "visit E fixed sel ng imp p i")
    case (Returned imp' p')
    with visit_keeps [OF assms, of sel ng imp p i] Cons.IH [of imp' p'] show ?thesis by simp
  next
    case (Failed e p')
    with visit_keeps [OF assms, of sel ng imp p i] show ?thesis by simp
  qed
qed

lemma pass_keeps:
  assumes "moves_one_vertex E" and "v < length fixed" and "fixed ! v"
  shows "membership E (fst (state_of (pass E (visit E fixed sel ng) s))) ! v = membership E (fst s) ! v"
proof -
  obtain p r where s: "s = (p, r)" by (cases s)
  obtain ns r' where sh: "rng_shuffle E [0..<vcount E p] r = (ns, r')" by (cases "rng_shuffle E [0..<vcount E p] r")
  from sweep_keeps [OF assms, of sel ng ns False p] show ?thesis
    by (cases "sweep (visit E fixed sel ng) ns False p") (simp_all add: pass_def s sh)
qed

lemma passes_last_pass:
  assumes run: "passes E body s = Some out"
    and step: "\<And>s s'. I s \<Longrightarrow> pass E body s = Returned True s' \<Longrightarrow> I s'"
    and init: "I s"
  shows "\<exists>s0. I s0 \<and>
           ((\<exists>s'. out = Returned () s' \<and> pass E body s0 = Returned False s') \<or>
            (\<exists>e s'. out = Failed e s' \<and> pass E body s0 = Failed e s'))"
proof -
  let ?Q = "\<lambda>out. \<exists>s0. I s0 \<and>
           ((\<exists>s'. out = Returned () s' \<and> pass E body s0 = Returned False s') \<or>
            (\<exists>e s'. out = Failed e s' \<and> pass E body s0 = Failed e s'))"
  let ?P = "\<lambda>E' body' s out. E' = E \<longrightarrow> body' = body \<longrightarrow> I s \<longrightarrow> ?Q out"
  have "?P E body s out"
  proof (rule passes.raw_induct [where P = ?P, OF _ run])
    fix passes' E' body' s out
    assume IH: "\<And>E body s y. passes' E body s = Some y \<Longrightarrow> ?P E body s y"
      and eq: "(case pass E' body' s of
                  Returned improvement s' \<Rightarrow>
                    if improvement then passes' E' body' s' else Some (Returned () s')
                | Failed e s' \<Rightarrow> Some (Failed e s')) = Some out"
    show "?P E' body' s out"
    proof (intro impI)
      assume E': "E' = E" and body': "body' = body" and I: "I s"
      show "?Q out"
      proof (cases "pass E body s")
        case (Returned improvement s')
        show ?thesis
        proof (cases improvement)
          case True
          with eq Returned E' body' have "passes' E body s' = Some out" by simp
          moreover from step [OF I] Returned True have "I s'" by simp
          ultimately show ?thesis using IH by blast
        next
          case False
          with eq Returned E' body' have "out = Returned () s'" by simp
          with I Returned False show ?thesis by (intro exI [of _ s]) simp
        qed
      next
        case (Failed e s')
        with eq E' body' have "out = Failed e s'" by simp
        with I Failed E' body' show ?thesis by (intro exI [of _ s]) simp
      qed
    qed
  qed
  with init show ?thesis by simp
qed

lemma passes_invariant:
  assumes run: "passes E body s = Some out"
    and step: "\<And>s. I s \<Longrightarrow> I (state_of (pass E body s))"
    and init: "I s"
  shows "I (state_of out)"
proof -
  have "\<exists>s0. I s0 \<and>
           ((\<exists>s'. out = Returned () s' \<and> pass E body s0 = Returned False s') \<or>
            (\<exists>e s'. out = Failed e s' \<and> pass E body s0 = Failed e s'))"
  proof (rule passes_last_pass [where I = I, OF run _ init])
    fix s s'
    assume "I s" and "pass E body s = Returned True s'"
    with step [of s] show "I s'" by simp
  qed
  then obtain s0 where s0: "I s0"
    and last: "(\<exists>s'. out = Returned () s' \<and> pass E body s0 = Returned False s') \<or>
               (\<exists>e s'. out = Failed e s' \<and> pass E body s0 = Failed e s')"
    by blast
  from last have "state_of (pass E body s0) = state_of out" by auto
  with step [OF s0] show ?thesis by simp
qed

lemma passes_keeps:
  assumes "moves_one_vertex E" and "v < length fixed" and "fixed ! v"
    and "passes E (visit E fixed sel ng) s = Some out"
  shows "membership E (fst (state_of out)) ! v = membership E (fst s) ! v"
  by (rule passes_invariant [OF assms(4), where I = "\<lambda>s'. membership E (fst s') ! v = membership E (fst s) ! v"])
     (simp_all add: pass_keeps [OF assms(1-3)])

lemma move_nodes_state:
  "move_nodes E opt fixed s = Some out \<Longrightarrow>
     \<exists>out0. passes E (visit E fixed (select_impl E opt) False) s = Some out0 \<and> state_of out = state_of out0"
  by (auto simp: move_nodes_def move_nodes_impl_def visit_impl_def Let_def split: option.splits outcome.splits)

lemma merge_nodes_state:
  "merge_nodes E opt fixed s = Some out \<Longrightarrow>
     \<exists>out0. passes E (visit E fixed (select_merge E opt) True) s = Some out0 \<and> state_of out = state_of out0"
  by (auto simp: merge_nodes_def visit_merge_def Let_def split: option.splits outcome.splits)

lemma merge_nodes4_state:
  "merge_nodes4 E opt fixed cc rfn s = Some out \<Longrightarrow>
     \<exists>out0. passes E (visit E fixed (select4 E opt cc) True) s = Some out0 \<and> state_of out = state_of out0"
  by (auto simp: merge_nodes4_def visit4_def Let_def split: option.splits outcome.splits)

lemma move_nodes4_state:
  "state_of (move_nodes4 E opt fixed cc rfn s) = state_of (pass E (visit E fixed (select4 E opt cc) True) s)"
  by (simp add: move_nodes4_def visit4_def Let_def split: outcome.splits)

lemma move_nodes_keeps:
  assumes "moves_one_vertex E" and "v < length fixed" and "fixed ! v"
    and "move_nodes E opt fixed s = Some out"
  shows "membership E (fst (state_of out)) ! v = membership E (fst s) ! v"
  using move_nodes_state [OF assms(4)] passes_keeps [OF assms(1-3)] by fastforce

lemma merge_nodes_keeps:
  assumes "moves_one_vertex E" and "v < length fixed" and "fixed ! v"
    and "merge_nodes E opt fixed s = Some out"
  shows "membership E (fst (state_of out)) ! v = membership E (fst s) ! v"
  using merge_nodes_state [OF assms(4)] passes_keeps [OF assms(1-3)] by fastforce

lemma merge_nodes4_keeps:
  assumes "moves_one_vertex E" and "v < length fixed" and "fixed ! v"
    and "merge_nodes4 E opt fixed cc rfn s = Some out"
  shows "membership E (fst (state_of out)) ! v = membership E (fst s) ! v"
  using merge_nodes4_state [OF assms(4)] passes_keeps [OF assms(1-3)] by fastforce

lemma move_nodes4_keeps:
  assumes "moves_one_vertex E" and "v < length fixed" and "fixed ! v"
  shows "membership E (fst (state_of (move_nodes4 E opt fixed cc rfn s))) ! v = membership E (fst s) ! v"
  by (simp add: move_nodes4_state pass_keeps [OF assms])

subsection \<open>The store and the loop of \<^verbatim>\<open>optimise_partition\<close>\<close>

lemma optimise_round_cases:
  assumes "optimise_round E opt fixed part w = Some out"
  shows "\<exists>out0. (move_nodes E opt fixed (objs w part, rng w) = Some out0 \<or>
                  merge_nodes E opt fixed (objs w part, rng w) = Some out0) \<and>
           state_of out = w\<lparr>objs := (objs w)(part := fst (state_of out0)), rng := snd (state_of out0)\<rparr>"
  using assms
  by (auto simp: optimise_round_def split: routine.splits option.splits outcome.splits)

lemma optimise_round_frame:
  assumes "optimise_round E opt fixed part w = Some out"
  shows "next_free (state_of out) = next_free w"
    and "a \<noteq> part \<Longrightarrow> objs (state_of out) a = objs w a"
  using optimise_round_cases [OF assms] by auto

lemma optimise_round_keeps:
  assumes "moves_one_vertex E" and "v < length fixed" and "fixed ! v"
    and "optimise_round E opt fixed part w = Some out"
  shows "membership E (objs (state_of out) part) ! v = membership E (objs w part) ! v"
  using optimise_round_cases [OF assms(4)] move_nodes_keeps [OF assms(1-3)] merge_nodes_keeps [OF assms(1-3)]
  by fastforce

lemma aggregate_at_frame:
  assumes "aggregate_at E opt fixed part w = (a, w')"
  shows "a = next_free w" and "next_free w' = Suc (next_free w)"
    and "b \<noteq> next_free w \<Longrightarrow> objs w' b = objs w b"
  using assms by (auto simp: aggregate_at_def alloc_def split: prod.splits)

lemma optimise_loop_rule:
  assumes run: "optimise_loop E opt n fixed st = Some out"
    and init: "I st"
    and improve: "\<And>part i w w' part' w''. I (part, True, i, w) \<Longrightarrow> n < 0 \<or> i < n \<Longrightarrow>
        optimise_round E opt fixed part w = Some (Returned True w') \<Longrightarrow>
        aggregate_at E opt fixed part w' = (part', w'') \<Longrightarrow> I (part', True, i + 1, w'')"
    and stall: "\<And>part i w w'. I (part, True, i, w) \<Longrightarrow> n < 0 \<or> i < n \<Longrightarrow>
        optimise_round E opt fixed part w = Some (Returned False w') \<Longrightarrow> I (part, False, i + 1, w')"
    and fail: "\<And>part i w e w'. I (part, True, i, w) \<Longrightarrow> n < 0 \<or> i < n \<Longrightarrow>
        optimise_round E opt fixed part w = Some (Failed e w') \<Longrightarrow> Q (Failed e w')"
    and exit: "\<And>part wi i w. I (part, wi, i, w) \<Longrightarrow> \<not> (wi \<and> (n < 0 \<or> i < n)) \<Longrightarrow>
        Q (Returned (i, wi) w)"
  shows "Q out"
proof -
  let ?P = "\<lambda>E' opt' n' fixed' st out.
              E' = E \<longrightarrow> opt' = opt \<longrightarrow> n' = n \<longrightarrow> fixed' = fixed \<longrightarrow> I st \<longrightarrow> Q out"
  have "?P E opt n fixed st out"
  proof (rule optimise_loop.raw_induct [where P = ?P, OF _ run])
    fix loop E' opt' n' fixed' st out
    assume IH: "\<And>E opt n fixed st y. loop E opt n fixed st = Some y \<Longrightarrow> ?P E opt n fixed st y"
      and eq: "(case st of
         (part, was_improvement, i, w) \<Rightarrow>
           if was_improvement \<and> (n' < 0 \<or> i < n')
           then case optimise_round E' opt' fixed' part w of
                None \<Rightarrow> None
                | Some (Returned was_improvement' w') \<Rightarrow>
                    if was_improvement'
                    then case aggregate_at E' opt' fixed' part w' of
                         (part', w'') \<Rightarrow> loop E' opt' n' fixed' (part', was_improvement', i + 1, w'')
                    else loop E' opt' n' fixed' (part, was_improvement', i + 1, w')
                | Some (Failed e w') \<Rightarrow> Some (Failed e w')
           else Some (Returned (i, was_improvement) w)) = Some out"
    show "?P E' opt' n' fixed' st out"
    proof (intro impI)
      assume eqs: "E' = E" "opt' = opt" "n' = n" "fixed' = fixed" and I: "I st"
      obtain part wi i w where st: "st = (part, wi, i, w)" by (cases st)
      show "Q out"
      proof (cases "wi \<and> (n < 0 \<or> i < n)")
        case False
        with eq st eqs have "out = Returned (i, wi) w" by auto
        with exit [OF I [unfolded st] False] show ?thesis by simp
      next
        case True
        then have wi: "wi" and bound: "n < 0 \<or> i < n" by simp_all
        from I st wi have I': "I (part, True, i, w)" by simp
        from eq st eqs True obtain r where r: "optimise_round E opt fixed part w = Some r"
          by (cases "optimise_round E opt fixed part w") auto
        show ?thesis
        proof (cases r)
          case (Failed e w')
          with eq st eqs True r have "out = Failed e w'" by simp
          with fail [OF I' bound] r Failed show ?thesis by simp
        next
          case (Returned wi' w')
          show ?thesis
          proof (cases wi')
            case True
            obtain part' w'' where agg: "aggregate_at E opt fixed part w' = (part', w'')"
              by (cases "aggregate_at E opt fixed part w'")
            from eq st eqs \<open>wi \<and> (n < 0 \<or> i < n)\<close> r Returned True agg
            have "loop E opt n fixed (part', True, i + 1, w'') = Some out" by simp
            moreover from improve [OF I' bound _ agg] r Returned True
            have "I (part', True, i + 1, w'')" by simp
            ultimately show ?thesis using IH by blast
          next
            case False
            from eq st eqs \<open>wi \<and> (n < 0 \<or> i < n)\<close> r Returned False
            have "loop E opt n fixed (part, False, i + 1, w') = Some out" by simp
            moreover from stall [OF I' bound] r Returned False
            have "I (part, False, i + 1, w')" by simp
            ultimately show ?thesis using IH by blast
          qed
        qed
      qed
    qed
  qed
  with init show ?thesis by simp
qed

lemma optimise_loop_frame:
  assumes run: "optimise_loop E opt n fixed (part, wi, i, w) = Some out"
    and orig: "orig < next_free w" and other: "wi \<longrightarrow> part \<noteq> orig"
  shows "objs (state_of out) orig = objs w orig"
proof -
  let ?I = "\<lambda>(part', wi', i' :: int, w').
              orig < next_free w' \<and> (wi' \<longrightarrow> part' \<noteq> orig) \<and> objs w' orig = objs w orig"
  let ?Q = "\<lambda>out. objs (state_of out) orig = objs w orig"
  show ?thesis
  proof (rule optimise_loop_rule [where I = ?I and Q = ?Q, OF run])
    show "?I (part, wi, i, w)"
      using orig other by simp
  next
    fix part and i :: int and w1 w' part' w''
    assume I: "?I (part, True, i, w1)"
      and round: "optimise_round E opt fixed part w1 = Some (Returned True w')"
      and agg: "aggregate_at E opt fixed part w' = (part', w'')"
    from optimise_round_frame [OF round] I
    have "orig < next_free w'" and "objs w' orig = objs w orig" by auto
    with aggregate_at_frame [OF agg]
    show "?I (part', True, i + 1, w'')"
      by auto
  next
    fix part and i :: int and w1 w'
    assume I: "?I (part, True, i, w1)"
      and round: "optimise_round E opt fixed part w1 = Some (Returned False w')"
    from optimise_round_frame [OF round] I
    show "?I (part, False, i + 1, w')"
      by auto
  next
    fix part and i :: int and w1 e w'
    assume I: "?I (part, True, i, w1)"
      and round: "optimise_round E opt fixed part w1 = Some (Failed e w')"
    from optimise_round_frame [OF round] I
    show "?Q (Failed e w')" by auto
  next
    fix part wi and i :: int and w1
    assume "?I (part, wi, i, w1)"
    then show "?Q (Returned (i, wi) w1)" by simp
  qed
qed

lemma optimise_partition_run_cases:
  assumes "optimise_partition_run E opt part n fixed w = Some out"
  obtains (failed) e w1 where
      "optimise_round E opt fixed part (w\<lparr>rng := rng_init E (rng w)\<rparr>) = Some (Failed e w1)"
      "out = Failed e w1"
  | (stalled) w1 where
      "optimise_round E opt fixed part (w\<lparr>rng := rng_init E (rng w)\<rparr>) = Some (Returned False w1)"
      "optimise_loop E opt n fixed (part, False, 1, w1) = Some out"
  | (improved) w1 part' w2 where
      "optimise_round E opt fixed part (w\<lparr>rng := rng_init E (rng w)\<rparr>) = Some (Returned True w1)"
      "aggregate_at E opt fixed part w1 = (part', w2)"
      "optimise_loop E opt n fixed (part', True, 1, w2) = Some out"
proof (cases "optimise_round E opt fixed part (w\<lparr>rng := rng_init E (rng w)\<rparr>)")
  case None
  with assms show ?thesis by (simp add: optimise_partition_run_def)
next
  case (Some r)
  show ?thesis
  proof (cases r)
    case (Failed e w1)
    with assms Some failed show ?thesis by (simp add: optimise_partition_run_def)
  next
    case (Returned wi w1)
    show ?thesis
    proof (cases wi)
      case True
      obtain part' w2 where "aggregate_at E opt fixed part w1 = (part', w2)"
        by (cases "aggregate_at E opt fixed part w1")
      with assms Some Returned True improved show ?thesis
        by (simp add: optimise_partition_run_def)
    next
      case False
      with assms Some Returned stalled show ?thesis
        by (simp add: optimise_partition_run_def)
    qed
  qed
qed

lemma optimise_partition_run_keeps:
  assumes E: "moves_one_vertex E" and v: "v < length fixed" "fixed ! v"
    and alloc: "part < next_free w"
    and run: "optimise_partition_run E opt part n fixed w = Some out"
  shows "membership E (objs (state_of out) part) ! v = membership E (objs w part) ! v"
proof -
  let ?w0 = "w\<lparr>rng := rng_init E (rng w)\<rparr>"
  note keeps = optimise_round_keeps [OF E v, of opt part ?w0]
  from run show ?thesis
  proof (cases rule: optimise_partition_run_cases)
    case (failed e w1)
    with keeps [OF failed(1)] show ?thesis by simp
  next
    case (stalled w1)
    from optimise_round_frame(1) [OF stalled(1)] alloc have "part < next_free w1" by simp
    from optimise_loop_frame [OF stalled(2) this] keeps [OF stalled(1)] show ?thesis by simp
  next
    case (improved w1 part' w2)
    from optimise_round_frame(1) [OF improved(1)] alloc have lt: "part < next_free w1" by simp
    with aggregate_at_frame [OF improved(2)]
    have "part < next_free w2" "part' \<noteq> part" "objs w2 part = objs w1 part" by auto
    with optimise_loop_frame [OF improved(3), of part] keeps [OF improved(1)] show ?thesis by simp
  qed
qed

lemma optimise_partition_state:
  "optimise_partition E opt part n fixed w = Some out \<Longrightarrow>
     \<exists>out0. optimise_partition_run E opt part n fixed w = Some out0 \<and> state_of out = state_of out0"
  by (auto simp: optimise_partition_def split: option.splits outcome.splits)

text \<open>
  Claim C5. A vertex \<open>v\<close> with \<open>is_membership_fixed[v]\<close> set keeps its community through
  \<^verbatim>\<open>move_nodes\<close> and \<^verbatim>\<open>merge_nodes\<close> (two and four arguments) and through
  \<^verbatim>\<open>optimise_partition\<close>, whatever the configuration and the random numbers, however the
  call ends. The partition passed to \<^verbatim>\<open>optimise_partition\<close> is an allocated object, and
  \<^verbatim>\<open>move_node\<close> changes the community of the moved vertex only.
\<close>

theorem fixed_vertices_keep_their_community:
  assumes "moves_one_vertex E" and "v < length fixed" and "fixed ! v"
  shows "(\<forall>out. move_nodes E opt fixed s = Some out \<longrightarrow>
            membership E (fst (state_of out)) ! v = membership E (fst s) ! v) \<and>
         membership E (fst (state_of (move_nodes4 E opt fixed cc rfn s))) ! v = membership E (fst s) ! v \<and>
         (\<forall>out. merge_nodes E opt fixed s = Some out \<longrightarrow>
            membership E (fst (state_of out)) ! v = membership E (fst s) ! v) \<and>
         (\<forall>out. merge_nodes4 E opt fixed cc rfn s = Some out \<longrightarrow>
            membership E (fst (state_of out)) ! v = membership E (fst s) ! v) \<and>
         (\<forall>out. part < next_free w \<longrightarrow> optimise_partition E opt part n fixed w = Some out \<longrightarrow>
            membership E (objs (state_of out) part) ! v = membership E (objs w part) ! v)"
proof (intro conjI allI impI)
  fix out assume "move_nodes E opt fixed s = Some out"
  then show "membership E (fst (state_of out)) ! v = membership E (fst s) ! v"
    by (rule move_nodes_keeps [OF assms])
next
  show "membership E (fst (state_of (move_nodes4 E opt fixed cc rfn s))) ! v = membership E (fst s) ! v"
    by (rule move_nodes4_keeps [OF assms])
next
  fix out assume "merge_nodes E opt fixed s = Some out"
  then show "membership E (fst (state_of out)) ! v = membership E (fst s) ! v"
    by (rule merge_nodes_keeps [OF assms])
next
  fix out assume "merge_nodes4 E opt fixed cc rfn s = Some out"
  then show "membership E (fst (state_of out)) ! v = membership E (fst s) ! v"
    by (rule merge_nodes4_keeps [OF assms])
next
  fix out assume "part < next_free w" and "optimise_partition E opt part n fixed w = Some out"
  with optimise_partition_state [of E opt part n fixed w out]
    optimise_partition_run_keeps [OF assms, of part w opt n]
  show "membership E (objs (state_of out) part) ! v = membership E (objs w part) ! v"
    by auto
qed

lemma cpm_moves_one_vertex: "moves_one_vertex (cpm \<gamma>)"
  by (simp add: moves_one_vertex_def cpm_def cpm_move_node_def)

lemma cpm_shuffle_permutes: "shuffle_permutes (cpm \<gamma>)"
  by (simp add: shuffle_permutes_def cpm_def)

theorem fixed_vertices_keep_their_community_witness:
  "moves_one_vertex (cpm 1) \<and> 1 < length second_fixed \<and> second_fixed ! 1 \<and>
   final (move_nodes (cpm 1) optimiser0 second_fixed (singletons4, 0)) =
     Some (singletons4\<lparr>memb := [1, 1, 3, 3]\<rparr>, 2) \<and>
   membership (cpm 1) (singletons4\<lparr>memb := [1, 1, 3, 3]\<rparr>) ! 1 = membership (cpm 1) singletons4 ! 1 \<and>
   map_option contents (final (optimise_partition (cpm 1) optimiser0 0 2 second_fixed (world_of singletons4))) =
     Some [singletons4\<lparr>memb := [1, 1, 3, 3]\<rparr>, cpm_aggregate (singletons4\<lparr>memb := [1, 1, 3, 3]\<rparr>)]"
proof -
  have fixed: "1 < length second_fixed" "second_fixed ! 1"
    by (simp_all add: second_fixed_def)
  have run: "move_nodes (cpm 1) optimiser0 second_fixed (singletons4, 0) =
      Some (Returned (Double 5) (singletons4\<lparr>memb := [1, 1, 3, 3]\<rparr>, 2))"
    by code_simp
  have drv: "map_option contents (final (optimise_partition (cpm 1) optimiser0 0 2 second_fixed (world_of singletons4))) =
     Some [singletons4\<lparr>memb := [1, 1, 3, 3]\<rparr>, cpm_aggregate (singletons4\<lparr>memb := [1, 1, 3, 3]\<rparr>)]"
    by code_simp
  from fixed_vertices_keep_their_community [OF cpm_moves_one_vertex fixed,
      of 1 optimiser0 "(singletons4, 0)"] run
  have "membership (cpm 1) (singletons4\<lparr>memb := [1, 1, 3, 3]\<rparr>) ! 1 = membership (cpm 1) singletons4 ! 1"
    by simp
  with cpm_moves_one_vertex fixed run drv show ?thesis by simp
qed

subsection \<open>The driver \<^verbatim>\<open>optimise_partition\<close>\<close>

lemma pass_no_vertex:
  assumes "shuffle_permutes E" and "vcount E p = 0"
  shows "pass E body (p, r) = Returned False (p, snd (rng_shuffle E [] r))"
proof -
  from assms(1) have "mset (fst (rng_shuffle E [] r)) = mset []"
    unfolding shuffle_permutes_def by blast
  then have "fst (rng_shuffle E [] r) = []"
    by simp
  then obtain r' where "rng_shuffle E [] r = ([], r')"
    by (cases "rng_shuffle E [] r") simp
  with assms(2) show ?thesis by (simp add: pass_def)
qed

lemma passes_no_vertex:
  assumes "shuffle_permutes E" and "vcount E p = 0"
  shows "passes E body (p, r) = Some (Returned () (p, snd (rng_shuffle E [] r)))"
  by (subst passes.simps) (simp add: pass_no_vertex [OF assms])

lemma optimise_round_no_vertex:
  assumes "shuffle_permutes E" and "vcount E (objs w part) = 0"
  shows "optimise_round E opt fixed part w =
           Some (Returned False (w\<lparr>rng := snd (rng_shuffle E [] (rng w))\<rparr>))"
  by (cases "optimise_routine opt")
     (simp_all add: optimise_round_def move_nodes_def move_nodes_impl_def merge_nodes_def
        passes_no_vertex [OF assms])

lemma optimise_loop_exit:
  assumes "\<not> (wi \<and> (n < 0 \<or> i < n))"
  shows "optimise_loop E opt n fixed (part, wi, i, w) = Some (Returned (i, wi) w)"
  using assms by (subst optimise_loop.simps) auto

lemma optimise_partition_run_no_vertex:
  assumes "shuffle_permutes E" and "vcount E (objs w part) = 0"
  shows "optimise_partition_run E opt part n fixed w =
           Some (Returned (1, False) (w\<lparr>rng := snd (rng_shuffle E [] (rng_init E (rng w)))\<rparr>))"
proof -
  have "vcount E (objs (w\<lparr>rng := rng_init E (rng w)\<rparr>) part) = 0"
    using assms(2) by simp
  from optimise_round_no_vertex [OF assms(1) this]
  show ?thesis
    by (simp add: optimise_partition_run_def optimise_loop_exit)
qed

text \<open>
  Claim C1, as the code has it. \<^verbatim>\<open>optimise_partition\<close> is declared \<^verbatim>\<open>void\<close>: whenever it
  returns, it returns no value, and the quality reached is not handed to the caller. On a
  graph without vertices it does return, without a failure: it runs one round that moves
  nothing, aggregates nothing, and leaves every partition object as it was (so an empty
  membership stays empty); only the random number generator has been initialised and
  asked for one shuffle.
\<close>

theorem optimise_partition_returns_nothing:
  "(\<forall>v w'. optimise_partition E opt part n fixed w = Some (Returned v w') \<longrightarrow> v = Void) \<and>
   (shuffle_permutes E \<longrightarrow> vcount E (objs w part) = 0 \<longrightarrow>
      optimise_partition E opt part n fixed w =
        Some (Returned Void (w\<lparr>rng := snd (rng_shuffle E [] (rng_init E (rng w)))\<rparr>)))"
  by (auto simp: optimise_partition_def optimise_partition_run_no_vertex
      split: option.splits outcome.splits)

lemma optimise_loop_bounds:
  assumes run: "optimise_loop E opt n fixed (part, wi, i, w) = Some (Returned (i', wi') w')"
  shows "i \<le> i' \<and> (0 \<le> n \<longrightarrow> i' \<le> max i n) \<and> (wi' \<longrightarrow> 0 \<le> n \<and> n \<le> i')"
proof -
  let ?I = "\<lambda>(part' :: nat, wi' :: bool, j :: int, w' :: ('a, 'b) world).
              i \<le> j \<and> (0 \<le> n \<longrightarrow> j \<le> max i n)"
  let ?Q = "\<lambda>out. \<forall>j wi' w'. out = Returned (j, wi') w' \<longrightarrow>
              i \<le> j \<and> (0 \<le> n \<longrightarrow> j \<le> max i n) \<and> (wi' \<longrightarrow> 0 \<le> n \<and> n \<le> j)"
  have "?Q (Returned (i', wi') w')"
  proof (rule optimise_loop_rule [where I = ?I and Q = ?Q, OF run])
    show "?I (part, wi, i, w)" by simp
  next
    fix part and j :: int and w1 w' :: "('a, 'b) world" and part' :: nat and w'' :: "('a, 'b) world"
    assume "?I (part, True, j, w1)" and "n < 0 \<or> j < n"
    then show "?I (part', True, j + 1, w'')" by auto
  next
    fix part and j :: int and w1 w' :: "('a, 'b) world"
    assume "?I (part, True, j, w1)" and "n < 0 \<or> j < n"
    then show "?I (part, False, j + 1, w')" by auto
  next
    fix e and w' :: "('a, 'b) world"
    show "?Q (Failed e w')" by simp
  next
    fix part wi and j :: int and w1 :: "('a, 'b) world"
    assume "?I (part, wi, j, w1)" and "\<not> (wi \<and> (n < 0 \<or> j < n))"
    then show "?Q (Returned (j, wi) w1)" by auto
  qed
  then show ?thesis by simp
qed

lemma optimise_round_ends:
  assumes "routines_end E opt fixed"
  shows "optimise_round E opt fixed part w \<noteq> None"
proof -
  from assms obtain a b where "move_nodes E opt fixed (objs w part, rng w) = Some a"
    and "merge_nodes E opt fixed (objs w part, rng w) = Some b"
    unfolding routines_end_def by blast
  then show ?thesis
    by (cases "optimise_routine opt") (simp_all add: optimise_round_def split: outcome.splits)
qed

lemma optimise_loop_step:
  assumes "wi" and "n < 0 \<or> i < n"
  shows "optimise_loop E opt n fixed (part, wi, i, w) =
    (case optimise_round E opt fixed part w of
       None \<Rightarrow> None
     | Some (Failed e w') \<Rightarrow> Some (Failed e w')
     | Some (Returned was_improvement' w') \<Rightarrow>
         (if was_improvement' then
            (case aggregate_at E opt fixed part w' of
               (part', w'') \<Rightarrow> optimise_loop E opt n fixed (part', was_improvement', i + 1, w''))
          else optimise_loop E opt n fixed (part, was_improvement', i + 1, w')))"
  using assms by (subst optimise_loop.simps) auto

lemma optimise_loop_ends:
  assumes ends: "routines_end E opt fixed" and n: "0 \<le> n"
  shows "optimise_loop E opt n fixed (part, wi, i, w) \<noteq> None"
proof (induction "nat (n - i)" arbitrary: part wi i w)
  case 0
  then have "\<not> (wi \<and> (n < 0 \<or> i < n))" using n by auto
  then show ?case by (simp add: optimise_loop_exit)
next
  case (Suc k)
  show ?case
  proof (cases "wi \<and> (n < 0 \<or> i < n)")
    case False
    then show ?thesis by (simp add: optimise_loop_exit)
  next
    case True
    then have wi: wi and bound: "n < 0 \<or> i < n" by simp_all
    from Suc.hyps(2) have k: "k = nat (n - (i + 1))" by simp
    from optimise_round_ends [OF ends] obtain r where r: "optimise_round E opt fixed part w = Some r"
      by blast
    show ?thesis
    proof (cases r)
      case (Failed e w')
      with r show ?thesis by (simp add: optimise_loop_step [OF wi bound])
    next
      case (Returned wi' w')
      obtain part' w'' where agg: "aggregate_at E opt fixed part w' = (part', w'')"
        by (cases "aggregate_at E opt fixed part w'")
      from Suc.hyps(1) [OF k] r Returned agg show ?thesis
        by (simp add: optimise_loop_step [OF wi bound])
    qed
  qed
qed

lemma optimise_partition_run_ends:
  assumes ends: "routines_end E opt fixed" and n: "0 \<le> n"
  shows "optimise_partition_run E opt part n fixed w \<noteq> None"
proof -
  from optimise_round_ends [OF ends] obtain r
    where r: "optimise_round E opt fixed part (w\<lparr>rng := rng_init E (rng w)\<rparr>) = Some r"
    by blast
  show ?thesis
  proof (cases r)
    case (Failed e w')
    with r show ?thesis by (simp add: optimise_partition_run_def)
  next
    case (Returned wi w')
    with r optimise_loop_ends [OF ends n] show ?thesis
      by (simp add: optimise_partition_run_def split: prod.splits)
  qed
qed

lemma returned_SomeD: "returned x = Some v \<Longrightarrow> \<exists>s. x = Some (Returned v s)"
  by (cases x rule: returned.cases) simp_all

lemma visit_all_fixed:
  assumes "\<forall>i<length fixed. fixed ! i"
  shows "visit E fixed sel ng imp p i = Returned imp p \<or> visit E fixed sel ng imp p i = Failed Out_Of_Range p"
  using assms by (auto simp: visit_def)

lemma sweep_all_fixed:
  assumes "\<forall>i<length fixed. fixed ! i"
  shows "sweep (visit E fixed sel ng) ns imp p = Returned imp p \<or>
         sweep (visit E fixed sel ng) ns imp p = Failed Out_Of_Range p"
proof (induction ns)
  case Nil
  show ?case by simp
next
  case (Cons i ns)
  with visit_all_fixed [OF assms, of E sel ng imp p i] show ?case by auto
qed

lemma passes_all_fixed:
  assumes "\<forall>i<length fixed. fixed ! i"
  shows "passes E (visit E fixed sel ng) s \<noteq> None"
proof -
  obtain p r where s: "s = (p, r)" by (cases s)
  obtain ns r' where sh: "rng_shuffle E [0..<vcount E p] r = (ns, r')"
    by (cases "rng_shuffle E [0..<vcount E p] r")
  from sweep_all_fixed [OF assms, of E sel ng ns False p] show ?thesis
    by (subst passes.simps) (auto simp: pass_def s sh)
qed

lemma all_fixed_routines_end:
  assumes "\<forall>i<length fixed. fixed ! i"
  shows "routines_end E opt fixed"
proof -
  have "move_nodes E opt fixed s \<noteq> None" and "merge_nodes E opt fixed s \<noteq> None" for s
    using passes_all_fixed [OF assms, of E _ _ s]
    by (auto simp: move_nodes_def move_nodes_impl_def merge_nodes_def visit_impl_def visit_merge_def
        split: option.splits outcome.splits)
  then show ?thesis by (simp add: routines_end_def)
qed

text \<open>
  The hypotheses of C1 hold for the graph without vertices under the CPM class.
\<close>

theorem optimise_partition_returns_nothing_witness:
  "shuffle_permutes (cpm 1) \<and> vcount (cpm 1) (objs (world_of no_vertex) 0) = 0 \<and>
   optimise_partition (cpm 1) optimiser0 0 5 [] (world_of no_vertex) =
     Some (Returned Void ((world_of no_vertex)\<lparr>rng := 1\<rparr>)) \<and>
   membership (cpm 1) (objs ((world_of no_vertex)\<lparr>rng := 1\<rparr>) 0) = []"
proof -
  have empty: "vcount (cpm 1) (objs (world_of no_vertex) 0) = 0"
    by (simp add: cpm_def world_of_def no_vertex_def)
  from optimise_partition_returns_nothing [of "cpm 1" optimiser0 0 5 "[]" "world_of no_vertex"]
    cpm_shuffle_permutes [of 1] empty
  have "optimise_partition (cpm 1) optimiser0 0 5 [] (world_of no_vertex) =
     Some (Returned Void ((world_of no_vertex)\<lparr>rng := 1\<rparr>))"
    by (simp add: cpm_def world_of_def)
  with cpm_shuffle_permutes [of 1] empty show ?thesis
    by (simp add: cpm_def world_of_def no_vertex_def)
qed

text \<open>
  Claim C1 as stated fails on the path: \<^verbatim>\<open>optimise_partition\<close> returns nothing, while the
  quality of the final partition is 1.
\<close>

theorem optimise_partition_returns_quality_counterexample:
  "returned (optimise_partition (cpm 1) optimiser0 0 2 none_fixed (world_of path4)) = Some Void \<and>
   map_option contents (final (optimise_partition (cpm 1) optimiser0 0 2 none_fixed (world_of path4))) =
     Some [path4\<lparr>memb := [1, 1, 2, 2]\<rparr>, cpm_aggregate (path4\<lparr>memb := [1, 1, 2, 2]\<rparr>)] \<and>
   quality (cpm 1) (path4\<lparr>memb := [1, 1, 2, 2]\<rparr>) = 1 \<and>
   Void \<noteq> Double 1"
  by code_simp

text \<open>
  Claim C7 as stated fails for \<open>n_iterations = 0\<close>: a round is run, which moves the vertices
  0 and 2 of the path and is followed by an aggregation.
\<close>

theorem zero_iterations_counterexample:
  "returned (optimise_partition_run (cpm 1) optimiser0 0 0 none_fixed (world_of path4)) = Some (1, True) \<and>
   contents (world_of path4) = [path4] \<and>
   map_option contents (final (optimise_partition (cpm 1) optimiser0 0 0 none_fixed (world_of path4))) =
     Some [path4\<lparr>memb := [1, 1, 2, 2]\<rparr>, cpm_aggregate (path4\<lparr>memb := [1, 1, 2, 2]\<rparr>)]"
  by code_simp

text \<open>
  Claim C2 on the four-argument \<^verbatim>\<open>move_nodes\<close>. On the path it returns after one pass, in
  which vertex 2 moved; a further pass would move vertex 0. Its return value is the
  difference of the qualities, 3. The two-argument \<^verbatim>\<open>move_nodes\<close> repeats the pass and
  reaches the partition in which no vertex moves, with the difference 4.
\<close>

theorem move_nodes4_stops_after_one_pass:
  "move_nodes4 (cpm 1) optimiser0 none_fixed ALL_NEIGH_COMMS True (path4, 0) =
     Returned (Double 3) (path4\<lparr>memb := [0, 1, 2, 2]\<rparr>, 1) \<and>
   pass_moves (cpm 1) (visit4 (cpm 1) optimiser0 none_fixed ALL_NEIGH_COMMS) (path4, 0) = [2] \<and>
   pass_moves (cpm 1) (visit4 (cpm 1) optimiser0 none_fixed ALL_NEIGH_COMMS)
     (path4\<lparr>memb := [0, 1, 2, 2]\<rparr>, 1) = [0] \<and>
   move_nodes (cpm 1) optimiser0 none_fixed (path4, 0) =
     Some (Returned (Double 4) (path4\<lparr>memb := [1, 1, 2, 2]\<rparr>, 3))"
  by code_simp

text \<open>
  Claim C4 for \<^verbatim>\<open>RAND_NEIGH_COMM\<close> and \<^verbatim>\<open>RAND_COMM\<close>. Vertex 0 of the path has the
  neighbour community 1, and moving there gains 1; yet with either setting no community is
  scored for it, and the routine moves nothing, where \<^verbatim>\<open>ALL_NEIGH_COMMS\<close> moves two
  vertices.
\<close>

theorem random_candidates_are_not_scored:
  "get_neigh_comm_weights (cpm 1) singletons4 0 0 = [1] \<and>
   diff_move (cpm 1) singletons4 0 1 = 1 \<and>
   candidates4 (cpm 1) optimiser0 RAND_NEIGH_COMM singletons4 0 0 = [] \<and>
   candidates4 (cpm 1) optimiser0 RAND_COMM singletons4 0 0 = [] \<and>
   select4 (cpm 1) optimiser0 RAND_NEIGH_COMM singletons4 0 0 = (0, 0) \<and>
   select4 (cpm 1) optimiser0 RAND_COMM singletons4 0 0 = (0, 0) \<and>
   move_nodes4 (cpm 1) optimiser0 none_fixed RAND_NEIGH_COMM True (singletons4, 0) =
     Returned (Double 0) (singletons4, 1) \<and>
   move_nodes4 (cpm 1) optimiser0 none_fixed RAND_COMM True (singletons4, 0) =
     Returned (Double 0) (singletons4, 1) \<and>
   move_nodes4 (cpm 1) optimiser0 none_fixed ALL_NEIGH_COMMS True (singletons4, 0) =
     Returned (Double 5) (singletons4\<lparr>memb := [1, 1, 3, 3]\<rparr>, 1)"
  by code_simp

text \<open>
  Claim C6. Every community of the path has size 1. With \<open>max_comm_size = 1\<close> the
  five-argument \<^verbatim>\<open>move_nodes\<close> and \<^verbatim>\<open>merge_nodes\<close>, and the two-argument \<^verbatim>\<open>move_nodes\<close> of
  an optimiser configured with that bound, all end with community 1 of size 2.
\<close>

theorem size_bound_is_ignored:
  "map (csize (cpm 1) singletons4) [0, 1, 2, 3] = [1, 1, 1, 1] \<and>
   move_nodes5 (cpm 1) optimiser0 none_fixed ALL_NEIGH_COMMS True 1 (singletons4, 0) =
     Returned (Double 5) (singletons4\<lparr>memb := [1, 1, 3, 3]\<rparr>, 1) \<and>
   merge_nodes5 (cpm 1) optimiser0 none_fixed ALL_NEIGH_COMMS True 1 (singletons4, 0) =
     Some (Returned (Double 5) (singletons4\<lparr>memb := [1, 1, 3, 3]\<rparr>, 2)) \<and>
   move_nodes (cpm 1) (optimiser0\<lparr>max_comm_size := 1\<rparr>) none_fixed (singletons4, 0) =
     Some (Returned (Double 5) (singletons4\<lparr>memb := [1, 1, 3, 3]\<rparr>, 2)) \<and>
   csize (cpm 1) (singletons4\<lparr>memb := [1, 1, 3, 3]\<rparr>) 1 = 2"
  by code_simp

subsection \<open>What a pass moves\<close>

lemma visit_flag:
  "visit E fixed sel ng imp p i =
     (case visit E fixed sel ng False p i of
        Returned moved p' \<Rightarrow> Returned (imp \<or> moved) p'
      | Failed e p' \<Rightarrow> Failed e p')"
  by (simp add: visit_def Let_def split: prod.splits)

lemma visit_not_moved:
  "visit E fixed sel ng False p i = Returned False p' \<Longrightarrow> p' = p"
  by (auto simp: visit_def Let_def split: prod.splits if_splits)

lemma visit_moved:
  "visit E fixed sel ng False p i = Returned True p' \<Longrightarrow>
     i < length fixed \<and> \<not> fixed ! i \<and> (\<exists>c. c \<noteq> membership E p ! i \<and> p' = move_node E p i c)"
  by (auto simp: visit_def Let_def split: prod.splits if_splits)

lemma sweep_flag:
  "sweep (visit E fixed sel ng) ns imp p =
     (case sweep (visit E fixed sel ng) ns False p of
        Returned moved p' \<Rightarrow> Returned (imp \<or> moved) p'
      | Failed e p' \<Rightarrow> Failed e p')"
proof (induction ns arbitrary: imp p)
  case Nil
  show ?case by simp
next
  case (Cons i ns)
  show ?case
  proof (cases "visit E fixed sel ng False p i")
    case (Failed e p')
    then show ?thesis by (simp add: visit_flag [of E fixed sel ng imp])
  next
    case (Returned moved p')
    then show ?thesis
      using Cons.IH [of "imp \<or> moved" p'] Cons.IH [of moved p']
      by (simp add: visit_flag [of E fixed sel ng imp] split: outcome.splits)
  qed
qed

lemma sweep_moves_none:
  "sweep (visit E fixed sel ng) ns False p = Returned imp p' \<Longrightarrow>
     imp \<longleftrightarrow> sweep_moves (visit E fixed sel ng) ns p \<noteq> []"
proof (induction ns arbitrary: p)
  case Nil
  then show ?case by simp
next
  case (Cons i ns)
  show ?case
  proof (cases "visit E fixed sel ng False p i")
    case (Failed e p1)
    with Cons.prems show ?thesis by simp
  next
    case (Returned moved p1)
    show ?thesis
    proof (cases moved)
      case True
      with Cons.prems Returned show ?thesis
        by (simp add: sweep_flag [of E fixed sel ng ns True] split: outcome.splits)
    next
      case False
      with Cons.prems Returned Cons.IH [of p1] show ?thesis by simp
    qed
  qed
qed

lemma sweep_clean:
  "sweep (visit E fixed sel ng) ns False p = Returned False p' \<Longrightarrow> p' = p"
proof (induction ns arbitrary: p)
  case Nil
  then show ?case by simp
next
  case (Cons i ns)
  show ?case
  proof (cases "visit E fixed sel ng False p i")
    case (Failed e p1)
    with Cons.prems show ?thesis by simp
  next
    case (Returned moved p1)
    show ?thesis
    proof (cases moved)
      case True
      with Cons.prems Returned show ?thesis
        by (simp add: sweep_flag [of E fixed sel ng ns True] split: outcome.splits)
    next
      case False
      with Cons.prems Returned Cons.IH [of p1] visit_not_moved [of E fixed sel ng p i p1]
      show ?thesis by simp
    qed
  qed
qed

lemma sweep_moves_subset: "set (sweep_moves body ns p) \<subseteq> set ns"
  by (induction ns arbitrary: p) (auto split: outcome.splits if_splits)

lemma sweep_moves_distinct: "distinct ns \<Longrightarrow> distinct (sweep_moves body ns p)"
proof (induction ns arbitrary: p)
  case Nil
  show ?case by simp
next
  case (Cons i ns)
  then show ?case
    using sweep_moves_subset [of body ns]
    by (auto split: outcome.splits)
qed

lemma shuffled_range_distinct:
  assumes "shuffle_permutes E"
  shows "distinct (fst (rng_shuffle E [0..<n] r))"
proof -
  from assms have "mset (fst (rng_shuffle E [0..<n] r)) = mset [0..<n]"
    unfolding shuffle_permutes_def by blast
  then show ?thesis
    by (metis distinct_upt mset_eq_imp_distinct_iff)
qed

lemma pass_moves_distinct:
  assumes "shuffle_permutes E"
  shows "distinct (pass_moves E body s)"
  unfolding pass_moves_def
  by (rule sweep_moves_distinct) (rule shuffled_range_distinct [OF assms])



subsection \<open>The last pass of a routine\<close>

lemma pass_clean:
  assumes "pass E (visit E fixed sel ng) s = Returned False s'"
  shows "fst s' = fst s" and "pass_moves E (visit E fixed sel ng) s = []"
proof -
  obtain p r where s: "s = (p, r)" by (cases s)
  obtain ns r' where sh: "rng_shuffle E [0..<vcount E p] r = (ns, r')"
    by (cases "rng_shuffle E [0..<vcount E p] r")
  from assms obtain p' where sw: "sweep (visit E fixed sel ng) ns False p = Returned False p'"
    and s': "s' = (p', r')"
    by (auto simp: pass_def s sh split: outcome.splits)
  from sweep_clean [OF sw] s s' show "fst s' = fst s" by simp
  from sweep_moves_none [OF sw] s sh show "pass_moves E (visit E fixed sel ng) s = []"
    by (simp add: pass_moves_def)
qed

lemma passes_until_clean:
  assumes "passes E (visit E fixed sel ng) s = Some (Returned u s')"
  shows "\<exists>r. pass E (visit E fixed sel ng) (fst s', r) = Returned False s' \<and>
             pass_moves E (visit E fixed sel ng) (fst s', r) = []"
proof -
  from passes_last_pass [where I = "\<lambda>s. True", OF assms]
  obtain s0 where last: "pass E (visit E fixed sel ng) s0 = Returned False s'" by auto
  from pass_clean [OF last] have "s0 = (fst s', snd s0)" by (cases s0) simp
  with last pass_clean(2) [OF last] show ?thesis by metis
qed

lemma move_nodes_repeats_until_clean:
  assumes "move_nodes E opt fixed s = Some (Returned v s')"
  shows "v = Double (quality E (fst s') - quality E (fst s)) \<and>
         (\<exists>r. pass E (visit_impl E opt fixed) (fst s', r) = Returned False s' \<and>
              pass_moves E (visit_impl E opt fixed) (fst s', r) = [])"
proof -
  from assms obtain u where "passes E (visit E fixed (select_impl E opt) False) s = Some (Returned u s')"
    and "v = Double (quality E (fst s') - quality E (fst s))"
    by (auto simp: move_nodes_def move_nodes_impl_def visit_impl_def Let_def
        split: option.splits outcome.splits)
  with passes_until_clean [of E fixed "select_impl E opt" False s u s'] show ?thesis
    by (simp add: visit_impl_def)
qed

lemma move_nodes4_returns_difference:
  assumes "move_nodes4 E opt fixed cc rfn s = Returned v s'"
  shows "v = Double (quality E (fst s') - quality E (fst s))"
  using assms by (auto simp: move_nodes4_def Let_def split: outcome.splits)

lemma candidates4_cases:
  "candidates4 E opt ALL_NEIGH_COMMS p i comm_from =
     get_neigh_comm_weights E p i comm_from @ empty_comm E opt p"
  "candidates4 E opt ALL_COMMS p i comm_from = other_comms E p comm_from @ empty_comm E opt p"
  "candidates4 E opt RAND_COMM p i comm_from = empty_comm E opt p"
  "candidates4 E opt RAND_NEIGH_COMM p i comm_from = empty_comm E opt p"
  by (simp_all add: candidates4_def)

lemma empty_comm_cases:
  "consider_empty_community opt \<Longrightarrow> n_communities E p < vcount E p \<Longrightarrow>
     empty_comm E opt p = [n_communities E p]"
  "\<not> consider_empty_community opt \<Longrightarrow> empty_comm E opt p = []"
  "\<not> n_communities E p < vcount E p \<Longrightarrow> empty_comm E opt p = []"
  by (simp_all add: empty_comm_def)

subsection \<open>Failures\<close>

lemma visit_fails: "visit E fixed sel ng imp p i = Failed e p' \<Longrightarrow> e = Out_Of_Range"
  using visit_cases [of E fixed sel ng imp p i] by auto

lemma sweep_fails: "sweep (visit E fixed sel ng) ns imp p = Failed e p' \<Longrightarrow> e = Out_Of_Range"
proof (induction ns arbitrary: imp p)
  case Nil
  then show ?case by simp
next
  case (Cons i ns)
  then show ?case
    by (cases "visit E fixed sel ng imp p i") (auto dest: visit_fails)
qed

lemma pass_fails: "pass E (visit E fixed sel ng) s = Failed e s' \<Longrightarrow> e = Out_Of_Range"
  by (auto simp: pass_def split: prod.splits outcome.splits dest: sweep_fails)

lemma passes_fails:
  assumes "passes E (visit E fixed sel ng) s = Some (Failed e s')"
  shows "e = Out_Of_Range"
proof -
  from passes_last_pass [where I = "\<lambda>s. True", OF assms]
  obtain s0 where "pass E (visit E fixed sel ng) s0 = Failed e s'" by auto
  then show ?thesis by (rule pass_fails)
qed

lemma optimise_round_fails:
  assumes "optimise_round E opt fixed part w = Some (Failed e w')"
  shows "e = Out_Of_Range"
proof (cases "optimise_routine opt")
  case MOVE_NODES
  with assms obtain s' where "passes E (visit E fixed (select_impl E opt) False) (objs w part, rng w) = Some (Failed e s')"
    by (auto simp: optimise_round_def move_nodes_def move_nodes_impl_def visit_impl_def Let_def
        split: option.splits outcome.splits)
  then show ?thesis by (rule passes_fails)
next
  case MERGE_NODES
  with assms obtain s' where "passes E (visit E fixed (select_merge E opt) True) (objs w part, rng w) = Some (Failed e s')"
    by (auto simp: optimise_round_def merge_nodes_def visit_merge_def Let_def
        split: option.splits outcome.splits)
  then show ?thesis by (rule passes_fails)
qed

subsection \<open>The rounds of the driver\<close>

text \<open>
  The loop of the driver against \<open>run_rounds\<close>. Entered with the flag down it ends at
  once; with a bound \<open>n\<close> and the flag up it is \<open>run_rounds\<close> with the rounds that are
  left, \<open>n - i\<close>.
\<close>

lemma optimise_loop_stalled:
  "optimise_loop E opt n fixed (part, False, i, w) = Some (Returned (i, False) w)"
  by (simp add: optimise_loop_exit)

lemma optimise_loop_bounded_rounds:
  assumes "0 \<le> n"
  shows "optimise_loop E opt n fixed (part, True, i, w) = run_rounds E opt fixed (nat (n - i)) i part w"
proof (induction "nat (n - i)" arbitrary: part i w)
  case 0
  then have "\<not> (True \<and> (n < 0 \<or> i < n))" using assms by auto
  from optimise_loop_exit [OF this] 0 show ?case by simp
next
  case (Suc k)
  then have bound: "n < 0 \<or> i < n" and k: "k = nat (n - (i + 1))" by auto
  have suc: "nat (n - i) = Suc (nat (n - (i + 1)))" using Suc.hyps(2) by auto
  show ?case
  proof (cases "optimise_round E opt fixed part w")
    case None
    then show ?thesis by (simp add: optimise_loop_step [OF TrueI bound] suc)
  next
    case (Some r)
    show ?thesis
    proof (cases r)
      case (Failed e w')
      with Some show ?thesis by (simp add: optimise_loop_step [OF TrueI bound] suc)
    next
      case (Returned improved w')
      show ?thesis
      proof (cases improved)
        case False
        with Some Returned show ?thesis
          by (simp add: optimise_loop_step [OF TrueI bound] suc optimise_loop_stalled)
      next
        case True
        obtain part' w'' where agg: "aggregate_at E opt fixed part w' = (part', w'')"
          by (cases "aggregate_at E opt fixed part w'")
        from Suc.hyps(1) [OF k, of part' w''] Some Returned True agg show ?thesis
          by (simp add: optimise_loop_step [OF TrueI bound] suc)
      qed
    qed
  qed
qed

lemma optimise_partition_run_bounded:
  assumes "0 \<le> n"
  shows "optimise_partition_run E opt part n fixed w =
           run_rounds E opt fixed (max 1 (nat n)) 0 part (w\<lparr>rng := rng_init E (rng w)\<rparr>)"
proof -
  let ?w0 = "w\<lparr>rng := rng_init E (rng w)\<rparr>"
  have "optimise_partition_run E opt part n fixed w =
          run_rounds E opt fixed (Suc (nat (n - 1))) 0 part ?w0"
  proof (cases "optimise_round E opt fixed part ?w0")
    case None
    then show ?thesis by (simp add: optimise_partition_run_def)
  next
    case (Some r)
    show ?thesis
    proof (cases r)
      case (Failed e w')
      with Some show ?thesis by (simp add: optimise_partition_run_def)
    next
      case (Returned improved w')
      show ?thesis
      proof (cases improved)
        case False
        with Some Returned show ?thesis
          by (simp add: optimise_partition_run_def optimise_loop_stalled)
      next
        case True
        obtain part' w'' where agg: "aggregate_at E opt fixed part w' = (part', w'')"
          by (cases "aggregate_at E opt fixed part w'")
        from optimise_loop_bounded_rounds [OF assms, of E opt fixed part' 1 w''] Some Returned True agg
        show ?thesis
          by (simp add: optimise_partition_run_def)
      qed
    qed
  qed
  moreover have "max 1 (nat n) = Suc (nat (n - 1))" using assms by auto
  ultimately show ?thesis by (simp only:)
qed

text \<open>
  Without a bound, every run of \<open>run_rounds\<close> that stopped by itself is the run of the
  loop, and the loop ends in no other way.
\<close>

lemma optimise_loop_unbounded_stops:
  assumes "n < 0" and "run_rounds E opt fixed k i part w = Some out" and "stopped out"
  shows "optimise_loop E opt n fixed (part, True, i, w) = Some out"
  using assms(2,3)
proof (induction k arbitrary: i part w)
  case 0
  then show ?case by auto
next
  case (Suc k)
  from assms(1) have bound: "n < 0 \<or> i < n" by simp
  from Suc.prems(1) obtain r where r: "optimise_round E opt fixed part w = Some r"
    by (cases "optimise_round E opt fixed part w") auto
  show ?case
  proof (cases r)
    case (Failed e w')
    with Suc.prems(1) r show ?thesis by (simp add: optimise_loop_step [OF TrueI bound])
  next
    case (Returned improved w')
    show ?thesis
    proof (cases improved)
      case False
      with Suc.prems(1) r Returned show ?thesis
        by (simp add: optimise_loop_step [OF TrueI bound] optimise_loop_stalled)
    next
      case True
      obtain part' w'' where agg: "aggregate_at E opt fixed part w' = (part', w'')"
        by (cases "aggregate_at E opt fixed part w'")
      with Suc.prems(1) r Returned True
      have "run_rounds E opt fixed k (i + 1) part' w'' = Some out" by simp
      from Suc.IH [OF this Suc.prems(2)] r Returned True agg show ?thesis
        by (simp add: optimise_loop_step [OF TrueI bound])
    qed
  qed
qed

lemma optimise_loop_unbounded_only_stops:
  assumes neg: "n < 0" and run: "optimise_loop E opt n fixed (part, True, i, w) = Some out"
  shows "\<exists>k. run_rounds E opt fixed k i part w = Some out \<and> stopped out"
proof -
  let ?from = "\<lambda>(p :: nat, wi :: bool, j :: int, v :: ('a, 'b) world) k.
                 if wi then run_rounds E opt fixed k j p v else Some (Returned (j, False) v)"
  let ?I = "\<lambda>st. \<forall>k res. ?from st k = Some res \<longrightarrow> stopped res \<longrightarrow>
                (\<exists>k0. run_rounds E opt fixed k0 i part w = Some res)"
  let ?Q = "\<lambda>out. \<exists>k0. run_rounds E opt fixed k0 i part w = Some out \<and> stopped out"
  show ?thesis
  proof (rule optimise_loop_rule [where I = ?I and Q = ?Q, OF run])
    show "?I (part, True, i, w)" by auto
  next
    fix p and j :: int and v v' :: "('a, 'b) world" and p' :: nat and v'' :: "('a, 'b) world"
    assume I: "?I (p, True, j, v)"
      and round: "optimise_round E opt fixed p v = Some (Returned True v')"
      and agg: "aggregate_at E opt fixed p v' = (p', v'')"
    show "?I (p', True, j + 1, v'')"
    proof (intro allI impI)
      fix k res
      assume "?from (p', True, j + 1, v'') k = Some res" and st: "stopped res"
      with round agg have "?from (p, True, j, v) (Suc k) = Some res" by simp
      with I st show "\<exists>k0. run_rounds E opt fixed k0 i part w = Some res" by blast
    qed
  next
    fix p and j :: int and v v' :: "('a, 'b) world"
    assume I: "?I (p, True, j, v)"
      and round: "optimise_round E opt fixed p v = Some (Returned False v')"
    show "?I (p, False, j + 1, v')"
    proof (intro allI impI)
      fix k :: nat and res
      assume "?from (p, False, j + 1, v') k = Some res" and st: "stopped res"
      with round have "?from (p, True, j, v) (Suc 0) = Some res" by simp
      with I st show "\<exists>k0. run_rounds E opt fixed k0 i part w = Some res" by blast
    qed
  next
    fix p and j :: int and v :: "('a, 'b) world" and e v'
    assume I: "?I (p, True, j, v)"
      and round: "optimise_round E opt fixed p v = Some (Failed e v')"
    then have "?from (p, True, j, v) (Suc 0) = Some (Failed e v')" by simp
    moreover have "stopped (Failed e v')" by simp
    ultimately show "?Q (Failed e v')" using I by blast
  next
    fix p wi and j :: int and v :: "('a, 'b) world"
    assume I: "?I (p, wi, j, v)" and "\<not> (wi \<and> (n < 0 \<or> j < n))"
    with neg have "\<not> wi" by simp
    then have "?from (p, wi, j, v) 0 = Some (Returned (j, wi) v)" "stopped (Returned (j, wi) v)"
      by simp_all
    with I show "?Q (Returned (j, wi) v)" by blast
  qed
qed

lemma optimise_partition_run_unbounded:
  assumes "n < 0"
  shows "optimise_partition_run E opt part n fixed w = Some out \<longleftrightarrow>
           (\<exists>k. run_rounds E opt fixed k 0 part (w\<lparr>rng := rng_init E (rng w)\<rparr>) = Some out \<and>
                stopped out)"
proof
  let ?w0 = "w\<lparr>rng := rng_init E (rng w)\<rparr>"
  assume run: "optimise_partition_run E opt part n fixed w = Some out"
  then show "\<exists>k. run_rounds E opt fixed k 0 part ?w0 = Some out \<and> stopped out"
  proof (cases rule: optimise_partition_run_cases)
    case (failed e w1)
    then have "run_rounds E opt fixed (Suc 0) 0 part ?w0 = Some out \<and> stopped out" by auto
    then show ?thesis by blast
  next
    case (stalled w1)
    then have "run_rounds E opt fixed (Suc 0) 0 part ?w0 = Some out \<and> stopped out"
      by (auto simp: optimise_loop_stalled)
    then show ?thesis by blast
  next
    case (improved w1 part' w2)
    from optimise_loop_unbounded_only_stops [OF assms improved(3)]
    obtain k where "run_rounds E opt fixed k 1 part' w2 = Some out" and st: "stopped out" by blast
    with improved(1,2) have "run_rounds E opt fixed (Suc k) 0 part ?w0 = Some out" by simp
    with st show ?thesis by blast
  qed
next
  let ?w0 = "w\<lparr>rng := rng_init E (rng w)\<rparr>"
  assume "\<exists>k. run_rounds E opt fixed k 0 part ?w0 = Some out \<and> stopped out"
  then obtain k where k: "run_rounds E opt fixed k 0 part ?w0 = Some out" and st: "stopped out"
    by blast
  show "optimise_partition_run E opt part n fixed w = Some out"
  proof (cases k)
    case 0
    with k st show ?thesis by auto
  next
    case (Suc k')
    with k obtain r where r: "optimise_round E opt fixed part ?w0 = Some r"
      by (cases "optimise_round E opt fixed part ?w0") auto
    show ?thesis
    proof (cases r)
      case (Failed e w')
      with k Suc r show ?thesis by (simp add: optimise_partition_run_def)
    next
      case (Returned improved w')
      show ?thesis
      proof (cases improved)
        case False
        with k Suc r Returned show ?thesis
          by (simp add: optimise_partition_run_def optimise_loop_stalled)
      next
        case True
        obtain part' w'' where agg: "aggregate_at E opt fixed part w' = (part', w'')"
          by (cases "aggregate_at E opt fixed part w'")
        with k Suc r Returned True
        have "run_rounds E opt fixed k' 1 part' w'' = Some out" by simp
        from optimise_loop_unbounded_stops [OF assms this st] r Returned True agg
        show ?thesis by (simp add: optimise_partition_run_def)
      qed
    qed
  qed
qed

text \<open>
  Claim C7 as the code has it. With \<open>n_iterations \<ge> 0\<close> the driver is \<open>run_rounds\<close>
  with \<open>max 1 n_iterations\<close> rounds to spend: it always runs a first round, follows each
  round that improved by an aggregation, stops as soon as a round fails to improve, and runs
  \<open>max 1 n_iterations\<close> rounds at most. With a negative \<open>n_iterations\<close> the number of
  rounds has no bound: the driver ends in exactly the outcomes of the runs of
  \<open>run_rounds\<close> that stopped by themselves, so only a round that fails to improve (or
  fails) stops it. \<^verbatim>\<open>optimise_partition\<close> ends in the state in which that run ends,
  and with \<open>n_iterations \<ge> 0\<close> it ends whenever the routines do.
\<close>

theorem optimise_partition_rounds:
  "(0 \<le> n \<longrightarrow>
      optimise_partition_run E opt part n fixed w =
        run_rounds E opt fixed (max 1 (nat n)) 0 part (w\<lparr>rng := rng_init E (rng w)\<rparr>)) \<and>
   (n < 0 \<longrightarrow>
      (\<forall>out. optimise_partition_run E opt part n fixed w = Some out \<longleftrightarrow>
         (\<exists>k. run_rounds E opt fixed k 0 part (w\<lparr>rng := rng_init E (rng w)\<rparr>) = Some out \<and>
              stopped out))) \<and>
   final (optimise_partition E opt part n fixed w) =
     final (optimise_partition_run E opt part n fixed w) \<and>
   (routines_end E opt fixed \<longrightarrow> 0 \<le> n \<longrightarrow> optimise_partition E opt part n fixed w \<noteq> None)"
proof -
  have same: "final (optimise_partition E opt part n fixed w) =
     final (optimise_partition_run E opt part n fixed w)"
    by (simp add: optimise_partition_def split: option.splits outcome.splits)
  have ends: "optimise_partition E opt part n fixed w \<noteq> None"
    if "routines_end E opt fixed" and "0 \<le> n"
  proof -
    from that have "optimise_partition_run E opt part n fixed w \<noteq> None"
      by (rule optimise_partition_run_ends)
    then show ?thesis
      by (auto simp: optimise_partition_def split: option.splits outcome.splits)
  qed
  from optimise_partition_run_bounded [of n E opt part fixed w]
    optimise_partition_run_unbounded [of n E opt part fixed w] same ends
  show ?thesis by blast
qed

text \<open>
  On the path with \<open>n_iterations = 3\<close>, the second round fails to improve and the driver
  stops there, with one round to spare; with \<open>n_iterations = -1\<close> it is the run of two
  rounds. With every vertex fixed the routines end.
\<close>

theorem optimise_partition_rounds_witness:
  "(0 :: int) \<le> 3 \<and>
   returned (optimise_partition_run (cpm 1) optimiser0 0 3 none_fixed (world_of path4)) =
     returned (run_rounds (cpm 1) optimiser0 none_fixed 3 0 0
       ((world_of path4)\<lparr>rng := rng_init (cpm 1) (rng (world_of path4))\<rparr>)) \<and>
   returned (run_rounds (cpm 1) optimiser0 none_fixed 3 0 0
       ((world_of path4)\<lparr>rng := rng_init (cpm 1) (rng (world_of path4))\<rparr>)) = Some (2, False) \<and>
   (-1 :: int) < 0 \<and>
   returned (optimise_partition_run (cpm 1) optimiser0 0 (-1) none_fixed (world_of path4)) =
     Some (2, False) \<and>
   routines_end (cpm 1) optimiser0 all_fixed \<and>
   optimise_partition (cpm 1) optimiser0 0 3 all_fixed (world_of path4) \<noteq> None"
proof -
  let ?w0 = "(world_of path4)\<lparr>rng := rng_init (cpm 1) (rng (world_of path4))\<rparr>"
  note thm3 = optimise_partition_rounds [of 3 "cpm 1" optimiser0 0 none_fixed "world_of path4"]
  then have bounded: "optimise_partition_run (cpm 1) optimiser0 0 3 none_fixed (world_of path4) =
      run_rounds (cpm 1) optimiser0 none_fixed 3 0 0 ?w0"
    by simp
  have three: "returned (run_rounds (cpm 1) optimiser0 none_fixed 3 0 0 ?w0) = Some (2, False)"
    by code_simp
  have "returned (run_rounds (cpm 1) optimiser0 none_fixed 2 0 0 ?w0) = Some (2, False)"
    by code_simp
  then obtain w' where two: "run_rounds (cpm 1) optimiser0 none_fixed 2 0 0 ?w0 = Some (Returned (2, False) w')"
    by (blast dest: returned_SomeD)
  have "stopped (Returned (2 :: int, False) w')" by simp
  with two optimise_partition_rounds [of "-1" "cpm 1" optimiser0 0 none_fixed "world_of path4"]
  have "optimise_partition_run (cpm 1) optimiser0 0 (-1) none_fixed (world_of path4) =
      Some (Returned (2, False) w')"
    by auto
  then have unbounded: "returned (optimise_partition_run (cpm 1) optimiser0 0 (-1) none_fixed (world_of path4)) =
     Some (2, False)"
    by simp
  have ends: "routines_end (cpm 1) optimiser0 all_fixed"
    by (rule all_fixed_routines_end) (simp add: all_fixed_def less_Suc_eq numeral_Bit0 numeral_Bit1)
  with optimise_partition_rounds [of 3 "cpm 1" optimiser0 0 all_fixed "world_of path4"]
  have "optimise_partition (cpm 1) optimiser0 0 3 all_fixed (world_of path4) \<noteq> None" by simp
  with bounded three unbounded ends show ?thesis by simp
qed

subsection \<open>A pass of the merge routine\<close>






subsection \<open>The hierarchy\<close>

text \<open>
  An invariant \<open>I\<close> that the rounds and the new levels keep, together with a property
  \<open>Q\<close> of every way out, gives \<open>Q\<close> of each outcome of the loop.
\<close>

lemma hierarchical_loop_rule:
  assumes run: "hierarchical_loop E opt fixed partitions hierarchy st = Some out"
    and init: "I st"
    and improve: "\<And>part h w' part' h'. I (part, True, h) \<Longrightarrow>
        optimise_round E opt fixed part (world h) = Some (Returned True w') \<Longrightarrow>
        push_level E opt fixed partitions hierarchy part (h\<lparr>world := w'\<rparr>) = Returned part' h' \<Longrightarrow>
        I (part', True, h')"
    and stall: "\<And>part h w'. I (part, True, h) \<Longrightarrow>
        optimise_round E opt fixed part (world h) = Some (Returned False w') \<Longrightarrow>
        I (part, False, h\<lparr>world := w'\<rparr>)"
    and fail: "\<And>part h e w'. I (part, True, h) \<Longrightarrow>
        optimise_round E opt fixed part (world h) = Some (Failed e w') \<Longrightarrow>
        Q (Failed e (h\<lparr>world := w'\<rparr>))"
    and fail_push: "\<And>part h w' e h'. I (part, True, h) \<Longrightarrow>
        optimise_round E opt fixed part (world h) = Some (Returned True w') \<Longrightarrow>
        push_level E opt fixed partitions hierarchy part (h\<lparr>world := w'\<rparr>) = Failed e h' \<Longrightarrow>
        Q (Failed e h')"
    and exit: "\<And>part h. I (part, False, h) \<Longrightarrow> Q (Returned () h)"
  shows "Q out"
proof -
  let ?P = "\<lambda>E' opt' fixed' partitions' hierarchy' st out.
              E' = E \<longrightarrow> opt' = opt \<longrightarrow> fixed' = fixed \<longrightarrow> partitions' = partitions \<longrightarrow>
              hierarchy' = hierarchy \<longrightarrow> I st \<longrightarrow> Q out"
  have "?P E opt fixed partitions hierarchy st out"
  proof (rule hierarchical_loop.raw_induct [where P = ?P, OF _ run])
    fix loop E' opt' fixed' partitions' hierarchy' st out
    assume IH: "\<And>E opt fixed partitions hierarchy st y.
        loop E opt fixed partitions hierarchy st = Some y \<Longrightarrow> ?P E opt fixed partitions hierarchy st y"
      and eq: "(case st of
         (part, was_improvement, h) \<Rightarrow>
           if was_improvement
           then case optimise_round E' opt' fixed' part (world h) of
                None \<Rightarrow> None
                | Some (Returned was_improvement' w') \<Rightarrow>
                    if was_improvement'
                    then case push_level E' opt' fixed' partitions' hierarchy' part (h\<lparr>world := w'\<rparr>) of
                         Returned part' h' \<Rightarrow>
                           loop E' opt' fixed' partitions' hierarchy' (part', was_improvement', h')
                         | Failed e h' \<Rightarrow> Some (Failed e h')
                    else loop E' opt' fixed' partitions' hierarchy'
                           (part, was_improvement', h\<lparr>world := w'\<rparr>)
                | Some (Failed e w') \<Rightarrow> Some (Failed e (h\<lparr>world := w'\<rparr>))
           else Some (Returned () h)) = Some out"
    show "?P E' opt' fixed' partitions' hierarchy' st out"
    proof (intro impI)
      assume eqs: "E' = E" "opt' = opt" "fixed' = fixed" "partitions' = partitions"
          "hierarchy' = hierarchy"
        and I: "I st"
      obtain part wi h where st: "st = (part, wi, h)" by (cases st)
      show "Q out"
      proof (cases wi)
        case False
        with eq st have "out = Returned () h" by simp
        with exit [of part h] I st False show ?thesis by simp
      next
        case True
        from I st True have I': "I (part, True, h)" by simp
        from eq st eqs True obtain r where r: "optimise_round E opt fixed part (world h) = Some r"
          by (cases "optimise_round E opt fixed part (world h)") auto
        show ?thesis
        proof (cases r)
          case (Failed e w')
          with eq st eqs True r have "out = Failed e (h\<lparr>world := w'\<rparr>)" by simp
          with fail [OF I'] r Failed show ?thesis by simp
        next
          case (Returned wi' w')
          show ?thesis
          proof (cases wi')
            case True
            show ?thesis
            proof (cases "push_level E opt fixed partitions hierarchy part (h\<lparr>world := w'\<rparr>)")
              case (Returned part' h')
              from eq st eqs \<open>wi\<close> r \<open>r = Returned wi' w'\<close> True Returned
              have "loop E opt fixed partitions hierarchy (part', True, h') = Some out" by simp
              moreover from improve [OF I' _ Returned] r \<open>r = Returned wi' w'\<close> True
              have "I (part', True, h')" by simp
              ultimately show ?thesis using IH by blast
            next
              case (Failed e h')
              from eq st eqs \<open>wi\<close> r \<open>r = Returned wi' w'\<close> True Failed
              have "out = Failed e h'" by simp
              with fail_push [OF I' _ Failed] r \<open>r = Returned wi' w'\<close> True show ?thesis by simp
            qed
          next
            case False
            from eq st eqs \<open>wi\<close> r Returned False
            have "loop E opt fixed partitions hierarchy (part, False, h\<lparr>world := w'\<rparr>) = Some out"
              by simp
            moreover from stall [OF I'] r Returned False
            have "I (part, False, h\<lparr>world := w'\<rparr>)" by simp
            ultimately show ?thesis using IH by blast
          qed
        qed
      qed
    qed
  qed
  with init show ?thesis by simp
qed


lemma push_level_fails:
  assumes "push_level E opt fixed partitions hierarchy part h = Failed e h'"
  shows "e = Out_Of_Range" and "vectors h' = vectors h"
    and "next_free (world h) \<le> next_free (world h')"
    and "b < next_free (world h) \<Longrightarrow> objs (world h') b = objs (world h) b"
proof -
  obtain new_partition w1 where agg: "aggregate_at E opt fixed part (world h) = (new_partition, w1)"
    by (cases "aggregate_at E opt fixed part (world h)")
  with assms have e: "e = Out_Of_Range" and h': "h' = h\<lparr>world := w1\<rparr>"
    by (auto simp: push_level_def Let_def split: if_splits prod.splits)
  note a = aggregate_at_frame [OF agg]
  from e show "e = Out_Of_Range" .
  from h' show "vectors h' = vectors h" by simp
  from h' a show "next_free (world h) \<le> next_free (world h')" by simp
  show "objs (world h') b = objs (world h) b" if "b < next_free (world h)"
    using that h' a(3) [of b] by simp
qed


text \<open>
  Nothing after the check of the lengths throws a \<^verbatim>\<open>std::runtime_error\<close>.
\<close>

lemma hierarchical_loop_fails:
  assumes run: "hierarchical_loop E opt fixed partitions hierarchy st = Some (Failed e h')"
  shows "e = Out_Of_Range"
proof -
  let ?I = "\<lambda>st :: nat \<times> bool \<times> ('a, 'b) hstate. True"
  let ?Q = "\<lambda>out :: (unit, ('a, 'b) hstate) outcome. \<forall>e h'. out = Failed e h' \<longrightarrow> e = Out_Of_Range"
  have "?Q (Failed e h')"
  proof (rule hierarchical_loop_rule [where I = ?I and Q = ?Q, OF run])
    fix part :: nat and h :: "('a, 'b) hstate" and e w'
    assume "optimise_round E opt fixed part (world h) = Some (Failed e w')"
    then have "e = Out_Of_Range" by (rule optimise_round_fails)
    then show "?Q (Failed e (h\<lparr>world := w'\<rparr>))" by simp
  next
    fix part :: nat and h :: "('a, 'b) hstate" and w' e h'
    assume "push_level E opt fixed partitions hierarchy part (h\<lparr>world := w'\<rparr>) = Failed e h'"
    then have "e = Out_Of_Range" by (rule push_level_fails)
    then show "?Q (Failed e h')" by simp
  qed simp_all
  then show ?thesis by simp
qed



lemma optimise_levels_fails:
  assumes "optimise_levels E opt fixed partitions hierarchy part h = Some (Failed e h')"
  shows "e = Out_Of_Range"
proof (cases "optimise_round E opt fixed part (world h)")
  case None
  with assms show ?thesis by (simp add: optimise_levels_def)
next
  case (Some r)
  show ?thesis
  proof (cases r)
    case (Failed e1 w')
    with assms Some optimise_round_fails [of E opt fixed part "world h" e1 w'] show ?thesis
      by (simp add: optimise_levels_def)
  next
    case (Returned wi w')
    let ?step = "if wi then push_level E opt fixed partitions hierarchy part (h\<lparr>world := w'\<rparr>)
                 else Returned part (h\<lparr>world := w'\<rparr>)"
    show ?thesis
    proof (cases ?step)
      case (Failed e1 h1)
      then have "wi" and "push_level E opt fixed partitions hierarchy part (h\<lparr>world := w'\<rparr>) = Failed e1 h1"
        by (auto split: if_splits)
      from push_level_fails(1) [OF this(2)] assms Some Returned Failed show ?thesis
        by (simp add: optimise_levels_def)
    next
      case step: (Returned part' h1)
      with assms Some Returned
      have "hierarchical_loop E opt fixed partitions hierarchy (part', wi, h1) = Some (Failed e h')"
        by (auto simp: optimise_levels_def Let_def split: option.splits outcome.splits)
      then show ?thesis by (rule hierarchical_loop_fails)
    qed
  qed
qed


text \<open>
  Claim C9. \<^verbatim>\<open>optimise_partition_hierarchical\<close> throws its \<^verbatim>\<open>std::runtime_error\<close> if and
  only if \<^verbatim>\<open>partitions\<close> and \<^verbatim>\<open>layer_weights\<close> differ in length, and then the state is the
  one it was called in: no partition, no vector and not the generator has been touched. This
  holds also when \<^verbatim>\<open>partitions\<close> and \<^verbatim>\<open>hierarchy\<close> are one vector.
\<close>

theorem hierarchical_throws_on_length_mismatch:
  "((\<exists>msg h'. optimise_partition_hierarchical E opt partitions layer_weights fixed hierarchy h =
        Some (Failed (Runtime_Error msg) h')) \<longleftrightarrow>
      length (vectors h partitions) \<noteq> length layer_weights) \<and>
   (\<forall>msg h'. optimise_partition_hierarchical E opt partitions layer_weights fixed hierarchy h =
        Some (Failed (Runtime_Error msg) h') \<longrightarrow> h' = h)"
proof (cases "length (vectors h partitions) = length layer_weights")
  case False
  then show ?thesis by (simp add: optimise_partition_hierarchical_def)
next
  case True
  have "optimise_partition_hierarchical E opt partitions layer_weights fixed hierarchy h \<noteq>
          Some (Failed (Runtime_Error msg) h')" for msg h'
  proof (cases "vectors h partitions = []")
    case True
    with \<open>length (vectors h partitions) = length layer_weights\<close> show ?thesis
      by (simp add: optimise_partition_hierarchical_def)
  next
    case False
    with True show ?thesis
      by (auto simp: optimise_partition_hierarchical_def dest: optimise_levels_fails)
  qed
  with True show ?thesis by simp
qed


text \<open>
  With one partition and no layer weight the call throws and the state is as before; with
  one of each it returns.
\<close>

theorem hierarchical_throws_on_length_mismatch_witness:
  "length (vectors (hstate_of path4) 0) \<noteq> length ([] :: real list) \<and>
   (\<exists>msg. optimise_partition_hierarchical (cpm 1) optimiser0 0 [] none_fixed 1 (hstate_of path4) =
      Some (Failed (Runtime_Error msg) (hstate_of path4))) \<and>
   length (vectors (hstate_of path4) 0) = length [1 :: real] \<and>
   returned (optimise_partition_hierarchical (cpm 1) optimiser0 0 [1] none_fixed 1 (hstate_of path4)) =
      Some (Double 1)"
proof -
  have differ: "length (vectors (hstate_of path4) 0) \<noteq> length ([] :: real list)"
    by (simp add: hstate_of_def)
  with hierarchical_throws_on_length_mismatch [where E = "cpm 1" and opt = optimiser0 and partitions = 0
      and layer_weights = "[]" and fixed = none_fixed and hierarchy = 1 and h = "hstate_of path4"]
  have "\<exists>msg. optimise_partition_hierarchical (cpm 1) optimiser0 0 [] none_fixed 1 (hstate_of path4) =
      Some (Failed (Runtime_Error msg) (hstate_of path4))"
    by blast
  moreover have "length (vectors (hstate_of path4) 0) = length [1 :: real]"
    by (simp add: hstate_of_def)
  moreover have "returned (optimise_partition_hierarchical (cpm 1) optimiser0 0 [1] none_fixed 1 (hstate_of path4)) =
      Some (Double 1)"
    by code_simp
  ultimately show ?thesis using differ by blast
qed



text \<open>
  With \<^verbatim>\<open>partitions\<close> and \<^verbatim>\<open>layer_weights\<close> both empty the lengths agree, and the read
  \<^verbatim>\<open>partitions[0]\<close> of line 127 is out of range: the model stops there, before the
  hierarchy is cleared.
\<close>

lemma hierarchical_on_an_empty_vector:
  "vector_at 2 (hstate_of path4) = [] \<and>
   optimise_partition_hierarchical (cpm 1) optimiser0 2 [] none_fixed 1 (hstate_of path4) =
     Some (Failed Out_Of_Range (hstate_of path4)) \<and>
   vector_at 1 (hstate_of path4) = [0, 0]"
  by (simp add: optimise_partition_hierarchical_def hstate_of_def vector_at_def)

end
